theory Spec2Isabelle
  imports Complex_Main
begin

section \<open>Constants\<close>

text \<open>
  The C++ type \<^verbatim>\<open>double\<close> is idealised as \<^typ>\<open>real\<close>: sums, products and quotients
  are exact and \<^verbatim>\<open>std::sin\<close> is the real sine. The one place where rounding decides a
  property, the length of the envelope's release, has a second model of the envelope in
  double precision (section \<open>ADSR envelope in double precision\<close>). The constants are
  those of \<^verbatim>\<open>fm_synth_gui.cpp\<close> (lines 13-14 and 617).
\<close>

definition TWO_PI :: real where
  "TWO_PI = 6.28318530717958647692"

definition SAMPLE_RATE :: real where
  "SAMPLE_RATE = 44100"

definition NUM_VOICES :: nat where
  "NUM_VOICES = 6"

section \<open>Oscillator (\<^verbatim>\<open>oscillator.h\<close>)\<close>

record Oscillator =
  phase :: real
  phaseIncrement :: real
  frequency :: real
  osc_sampleRate :: real

definition updatePhaseIncrement :: "Oscillator \<Rightarrow> Oscillator" where
  "updatePhaseIncrement osc =
     osc\<lparr>phaseIncrement := TWO_PI * frequency osc / osc_sampleRate osc\<rparr>"

text \<open>The constructor sets \<open>phase\<close>, \<open>frequency\<close> and \<open>sampleRate\<close> and then calls
  \<open>updatePhaseIncrement\<close>, which assigns \<open>phaseIncrement\<close>; the value given to that field
  in the record below is overwritten at once.\<close>

definition Oscillator_new :: "real \<Rightarrow> real \<Rightarrow> Oscillator" where
  "Oscillator_new freq sr =
     updatePhaseIncrement
       \<lparr>phase = 0, phaseIncrement = 0, frequency = freq, osc_sampleRate = sr\<rparr>"

definition Oscillator_setFrequency :: "Oscillator \<Rightarrow> real \<Rightarrow> Oscillator" where
  "Oscillator_setFrequency osc freq = updatePhaseIncrement (osc\<lparr>frequency := freq\<rparr>)"

definition Oscillator_process :: "Oscillator \<Rightarrow> real \<Rightarrow> real \<times> Oscillator" where
  "Oscillator_process osc modulation =
     (let output = sin (phase osc + modulation);
          p = phase osc + phaseIncrement osc;
          p' = (if p \<ge> TWO_PI then p - TWO_PI else p)
      in (output, osc\<lparr>phase := p'\<rparr>))"

definition Oscillator_reset :: "Oscillator \<Rightarrow> Oscillator" where
  "Oscillator_reset osc = osc\<lparr>phase := 0\<rparr>"

text \<open>Successive calls of \<open>process\<close>, one for each modulation input of the list, keeping
  the state only.\<close>

fun Oscillator_run :: "real list \<Rightarrow> Oscillator \<Rightarrow> Oscillator" where
  "Oscillator_run [] osc = osc"
| "Oscillator_run (m # ms) osc = Oscillator_run ms (snd (Oscillator_process osc m))"

section \<open>ADSR envelope (\<^verbatim>\<open>envelope.h\<close>)\<close>

datatype EnvelopeState = ENV_IDLE | ENV_ATTACK | ENV_DECAY | ENV_SUSTAIN | ENV_RELEASE

record ADSREnvelope =
  attackTime :: real
  decayTime :: real
  sustainLevel :: real
  releaseTime :: real
  state :: EnvelopeState
  currentLevel :: real
  env_sampleRate :: real
  attackIncrement :: real
  decayIncrement :: real
  releaseIncrement :: real
  releaseStartLevel :: real

definition updateIncrements :: "ADSREnvelope \<Rightarrow> ADSREnvelope" where
  "updateIncrements e =
     e\<lparr>attackIncrement := 1 / (attackTime e * env_sampleRate e),
       decayIncrement := (1 - sustainLevel e) / (decayTime e * env_sampleRate e)\<rparr>"

text \<open>The constructor leaves \<open>releaseIncrement\<close> uninitialised (only \<open>noteOff\<close> assigns
  it), so its initial content is a parameter \<open>ri0\<close> of the model. \<open>attackIncrement\<close> and
  \<open>decayIncrement\<close> are assigned by \<open>updateIncrements\<close> before the constructor returns.\<close>

definition ADSREnvelope_new :: "real \<Rightarrow> real \<Rightarrow> ADSREnvelope" where
  "ADSREnvelope_new sr ri0 =
     updateIncrements
       \<lparr>attackTime = 0.01, decayTime = 0.1, sustainLevel = 0.7, releaseTime = 0.3,
        state = ENV_IDLE, currentLevel = 0, env_sampleRate = sr,
        attackIncrement = 0, decayIncrement = 0, releaseIncrement = ri0,
        releaseStartLevel = 0\<rparr>"

definition ADSREnvelope_noteOn :: "ADSREnvelope \<Rightarrow> ADSREnvelope" where
  "ADSREnvelope_noteOn e = e\<lparr>state := ENV_ATTACK\<rparr>"

definition ADSREnvelope_noteOff :: "ADSREnvelope \<Rightarrow> ADSREnvelope" where
  "ADSREnvelope_noteOff e =
     (if state e \<noteq> ENV_IDLE then
        e\<lparr>releaseStartLevel := currentLevel e,
          releaseIncrement :=
            (if releaseTime e > 0 then currentLevel e / (releaseTime e * env_sampleRate e)
             else currentLevel e),
          state := ENV_RELEASE\<rparr>
      else e)"

definition ADSREnvelope_process :: "ADSREnvelope \<Rightarrow> real \<times> ADSREnvelope" where
  "ADSREnvelope_process e =
     (let e' =
        (case state e of
           ENV_IDLE \<Rightarrow> e\<lparr>currentLevel := 0\<rparr>
         | ENV_ATTACK \<Rightarrow>
             (let l = currentLevel e + attackIncrement e
              in if l \<ge> 1 then e\<lparr>currentLevel := 1, state := ENV_DECAY\<rparr>
                 else e\<lparr>currentLevel := l\<rparr>)
         | ENV_DECAY \<Rightarrow>
             (let l = currentLevel e - decayIncrement e
              in if l \<le> sustainLevel e
                 then e\<lparr>currentLevel := sustainLevel e, state := ENV_SUSTAIN\<rparr>
                 else e\<lparr>currentLevel := l\<rparr>)
         | ENV_SUSTAIN \<Rightarrow> e\<lparr>currentLevel := sustainLevel e\<rparr>
         | ENV_RELEASE \<Rightarrow>
             (let l = currentLevel e - releaseIncrement e
              in if l \<le> 0 then e\<lparr>currentLevel := 0, state := ENV_IDLE\<rparr>
                 else e\<lparr>currentLevel := l\<rparr>))
      in (currentLevel e', e'))"

definition ADSREnvelope_isActive :: "ADSREnvelope \<Rightarrow> bool" where
  "ADSREnvelope_isActive e = (state e \<noteq> ENV_IDLE)"

definition ADSREnvelope_setAttack :: "ADSREnvelope \<Rightarrow> real \<Rightarrow> ADSREnvelope" where
  "ADSREnvelope_setAttack e seconds = updateIncrements (e\<lparr>attackTime := max 0.001 seconds\<rparr>)"

definition ADSREnvelope_setDecay :: "ADSREnvelope \<Rightarrow> real \<Rightarrow> ADSREnvelope" where
  "ADSREnvelope_setDecay e seconds = updateIncrements (e\<lparr>decayTime := max 0.001 seconds\<rparr>)"

definition ADSREnvelope_setSustain :: "ADSREnvelope \<Rightarrow> real \<Rightarrow> ADSREnvelope" where
  "ADSREnvelope_setSustain e level =
     updateIncrements (e\<lparr>sustainLevel := max 0 (min 1 level)\<rparr>)"

definition ADSREnvelope_setRelease :: "ADSREnvelope \<Rightarrow> real \<Rightarrow> ADSREnvelope" where
  "ADSREnvelope_setRelease e seconds = updateIncrements (e\<lparr>releaseTime := max 0.001 seconds\<rparr>)"

text \<open>\<open>n\<close> successive calls of the envelope's \<open>process\<close>, keeping the state only.\<close>

fun ADSREnvelope_run :: "nat \<Rightarrow> ADSREnvelope \<Rightarrow> ADSREnvelope" where
  "ADSREnvelope_run 0 e = e"
| "ADSREnvelope_run (Suc n) e = ADSREnvelope_run n (snd (ADSREnvelope_process e))"

text \<open>The operations a client can apply to an envelope, and a sequence of them.\<close>

datatype EnvOp =
    OpNoteOn | OpNoteOff | OpProcess
  | OpSetAttack real | OpSetDecay real | OpSetSustain real | OpSetRelease real

fun env_apply :: "ADSREnvelope \<Rightarrow> EnvOp \<Rightarrow> ADSREnvelope" where
  "env_apply e OpNoteOn = ADSREnvelope_noteOn e"
| "env_apply e OpNoteOff = ADSREnvelope_noteOff e"
| "env_apply e OpProcess = snd (ADSREnvelope_process e)"
| "env_apply e (OpSetAttack t) = ADSREnvelope_setAttack e t"
| "env_apply e (OpSetDecay t) = ADSREnvelope_setDecay e t"
| "env_apply e (OpSetSustain l) = ADSREnvelope_setSustain e l"
| "env_apply e (OpSetRelease t) = ADSREnvelope_setRelease e t"

fun env_apply_all :: "ADSREnvelope \<Rightarrow> EnvOp list \<Rightarrow> ADSREnvelope" where
  "env_apply_all e [] = e"
| "env_apply_all e (x # xs) = env_apply_all (env_apply e x) xs"

text \<open>What every envelope built by the constructor and driven through its public
  operations satisfies.\<close>

definition env_inv :: "ADSREnvelope \<Rightarrow> bool" where
  "env_inv e \<longleftrightarrow>
     0 \<le> currentLevel e \<and> currentLevel e \<le> 1 \<and>
     0 \<le> sustainLevel e \<and> sustainLevel e \<le> 1 \<and>
     0 < attackTime e \<and> 0 < decayTime e \<and> 0 < releaseTime e \<and> 0 < env_sampleRate e \<and>
     attackIncrement e = 1 / (attackTime e * env_sampleRate e) \<and>
     decayIncrement e = (1 - sustainLevel e) / (decayTime e * env_sampleRate e) \<and>
     (state e = ENV_RELEASE \<longrightarrow> 0 \<le> releaseIncrement e)"

section \<open>FM voice with four operators (\<^verbatim>\<open>synth/fm_synth.h\<close>)\<close>

definition ALG_STACK :: int where "ALG_STACK = 0"
definition ALG_TWIN :: int where "ALG_TWIN = 1"
definition ALG_BRANCH :: int where "ALG_BRANCH = 2"
definition ALG_PARALLEL :: int where "ALG_PARALLEL = 3"
definition ALG_DUAL_CARRIER :: int where "ALG_DUAL_CARRIER = 4"
definition ALG_TRIPLE :: int where "ALG_TRIPLE = 5"
definition ALG_COUNT :: int where "ALG_COUNT = 6"

record FMSynth =
  op1 :: Oscillator
  op2 :: Oscillator
  op3 :: Oscillator
  op4 :: Oscillator
  envelope :: ADSREnvelope
  ratio1 :: real
  ratio2 :: real
  ratio3 :: real
  ratio4 :: real
  index1 :: real
  index2 :: real
  index3 :: real
  index4 :: real
  prevSample1 :: real
  algorithm :: int
  amplitude :: real
  noteActive :: bool
  currentFrequency :: real
  fm_sampleRate :: real

definition FMSynth_new :: "real \<Rightarrow> real \<Rightarrow> real \<Rightarrow> FMSynth" where
  "FMSynth_new freq sr ri0 =
     \<lparr>op1 = Oscillator_new freq sr,
      op2 = Oscillator_new (freq * 2) sr,
      op3 = Oscillator_new (freq * 3) sr,
      op4 = Oscillator_new (freq * 4) sr,
      envelope = ADSREnvelope_new sr ri0,
      ratio1 = 1, ratio2 = 2, ratio3 = 3, ratio4 = 4,
      index1 = 0, index2 = 2, index3 = 1.5, index4 = 1,
      prevSample1 = 0,
      algorithm = ALG_STACK,
      amplitude = 0.3,
      noteActive = False,
      currentFrequency = freq,
      fm_sampleRate = sr\<rparr>"

definition FMSynth_process :: "FMSynth \<Rightarrow> real \<times> FMSynth" where
  "FMSynth_process s =
     (if \<not> ADSREnvelope_isActive (envelope s) then (0, s)
      else
        let idx1 = index1 s; idx2 = index2 s; idx3 = index3 s; idx4 = index4 s;
            feedback = idx1 * prevSample1 s;
            (envLevel, env') = ADSREnvelope_process (envelope s);
            s = s\<lparr>envelope := env'\<rparr>
        in
          if algorithm s = ALG_STACK then
            (let (out4, o4) = Oscillator_process (op4 s) 0;
                 (out3, o3) = Oscillator_process (op3 s) (idx4 * out4);
                 (out2, o2) = Oscillator_process (op2 s) (idx3 * out3);
                 (out1, o1) = Oscillator_process (op1 s) (idx2 * out2 + feedback)
             in (out1 * amplitude s * envLevel,
                 s\<lparr>op4 := o4, op3 := o3, op2 := o2, op1 := o1, prevSample1 := out1\<rparr>))
          else if algorithm s = ALG_TWIN then
            (let (out4, o4) = Oscillator_process (op4 s) 0;
                 (out3, o3) = Oscillator_process (op3 s) (idx4 * out4);
                 (out2, o2) = Oscillator_process (op2 s) 0;
                 (out1, o1) = Oscillator_process (op1 s) (idx3 * out3 + idx2 * out2 + feedback)
             in (out1 * amplitude s * envLevel,
                 s\<lparr>op4 := o4, op3 := o3, op2 := o2, op1 := o1, prevSample1 := out1\<rparr>))
          else if algorithm s = ALG_BRANCH then
            (let (out4, o4) = Oscillator_process (op4 s) 0;
                 (out3, o3) = Oscillator_process (op3 s) (idx4 * out4);
                 (out2, o2) = Oscillator_process (op2 s) (idx4 * out4);
                 (out1, o1) = Oscillator_process (op1 s) (idx3 * out3 + idx2 * out2 + feedback)
             in (out1 * amplitude s * envLevel,
                 s\<lparr>op4 := o4, op3 := o3, op2 := o2, op1 := o1, prevSample1 := out1\<rparr>))
          else if algorithm s = ALG_PARALLEL then
            (let (out2, o2) = Oscillator_process (op2 s) 0;
                 (out3, o3) = Oscillator_process (op3 s) 0;
                 (out4, o4) = Oscillator_process (op4 s) 0;
                 (out1, o1) =
                   Oscillator_process (op1 s) (idx2 * out2 + idx3 * out3 + idx4 * out4 + feedback)
             in (out1 * amplitude s * envLevel,
                 s\<lparr>op2 := o2, op3 := o3, op4 := o4, op1 := o1, prevSample1 := out1\<rparr>))
          else if algorithm s = ALG_DUAL_CARRIER then
            (let (out4, o4) = Oscillator_process (op4 s) 0;
                 (out3, o3) = Oscillator_process (op3 s) (idx4 * out4);
                 (out2, o2) = Oscillator_process (op2 s) 0;
                 (out1, o1) = Oscillator_process (op1 s) (idx2 * out2 + feedback)
             in ((out1 + out3 * 0.7) * amplitude s * envLevel * 0.7,
                 s\<lparr>op4 := o4, op3 := o3, op2 := o2, op1 := o1, prevSample1 := out1\<rparr>))
          else if algorithm s = ALG_TRIPLE then
            (let (out4, o4) = Oscillator_process (op4 s) 0;
                 (out1, o1) = Oscillator_process (op1 s) (idx4 * out4 + feedback);
                 (out2, o2) = Oscillator_process (op2 s) (idx4 * out4);
                 (out3, o3) = Oscillator_process (op3 s) (idx4 * out4)
             in ((out1 + out2 * 0.6 + out3 * 0.4) * amplitude s * envLevel * 0.5,
                 s\<lparr>op4 := o4, op1 := o1, op2 := o2, op3 := o3, prevSample1 := out1\<rparr>))
          else (0, s))"

definition FMSynth_noteOn :: "FMSynth \<Rightarrow> real \<Rightarrow> FMSynth" where
  "FMSynth_noteOn s freq =
     s\<lparr>currentFrequency := freq,
       op1 := Oscillator_reset (Oscillator_setFrequency (op1 s) (freq * ratio1 s)),
       op2 := Oscillator_reset (Oscillator_setFrequency (op2 s) (freq * ratio2 s)),
       op3 := Oscillator_reset (Oscillator_setFrequency (op3 s) (freq * ratio3 s)),
       op4 := Oscillator_reset (Oscillator_setFrequency (op4 s) (freq * ratio4 s)),
       prevSample1 := 0,
       noteActive := True,
       envelope := ADSREnvelope_noteOn (envelope s)\<rparr>"

definition FMSynth_noteOff :: "FMSynth \<Rightarrow> FMSynth" where
  "FMSynth_noteOff s = s\<lparr>noteActive := False, envelope := ADSREnvelope_noteOff (envelope s)\<rparr>"

definition FMSynth_isActive :: "FMSynth \<Rightarrow> bool" where
  "FMSynth_isActive s = ADSREnvelope_isActive (envelope s)"

definition setRatio1 :: "FMSynth \<Rightarrow> real \<Rightarrow> FMSynth" where
  "setRatio1 s r =
     (let s = s\<lparr>ratio1 := r\<rparr>
      in if noteActive s
         then s\<lparr>op1 := Oscillator_setFrequency (op1 s) (currentFrequency s * r)\<rparr> else s)"

definition setRatio2 :: "FMSynth \<Rightarrow> real \<Rightarrow> FMSynth" where
  "setRatio2 s r =
     (let s = s\<lparr>ratio2 := r\<rparr>
      in if noteActive s
         then s\<lparr>op2 := Oscillator_setFrequency (op2 s) (currentFrequency s * r)\<rparr> else s)"

definition setRatio3 :: "FMSynth \<Rightarrow> real \<Rightarrow> FMSynth" where
  "setRatio3 s r =
     (let s = s\<lparr>ratio3 := r\<rparr>
      in if noteActive s
         then s\<lparr>op3 := Oscillator_setFrequency (op3 s) (currentFrequency s * r)\<rparr> else s)"

definition setRatio4 :: "FMSynth \<Rightarrow> real \<Rightarrow> FMSynth" where
  "setRatio4 s r =
     (let s = s\<lparr>ratio4 := r\<rparr>
      in if noteActive s
         then s\<lparr>op4 := Oscillator_setFrequency (op4 s) (currentFrequency s * r)\<rparr> else s)"

definition setIndex1 :: "FMSynth \<Rightarrow> real \<Rightarrow> FMSynth" where
  "setIndex1 s i = s\<lparr>index1 := i\<rparr>"

definition setIndex2 :: "FMSynth \<Rightarrow> real \<Rightarrow> FMSynth" where
  "setIndex2 s i = s\<lparr>index2 := i\<rparr>"

definition setIndex3 :: "FMSynth \<Rightarrow> real \<Rightarrow> FMSynth" where
  "setIndex3 s i = s\<lparr>index3 := i\<rparr>"

definition setIndex4 :: "FMSynth \<Rightarrow> real \<Rightarrow> FMSynth" where
  "setIndex4 s i = s\<lparr>index4 := i\<rparr>"

definition setAlgorithm :: "FMSynth \<Rightarrow> int \<Rightarrow> FMSynth" where
  "setAlgorithm s alg = s\<lparr>algorithm := alg\<rparr>"

definition setAttack :: "FMSynth \<Rightarrow> real \<Rightarrow> FMSynth" where
  "setAttack s t = s\<lparr>envelope := ADSREnvelope_setAttack (envelope s) t\<rparr>"

definition setDecay :: "FMSynth \<Rightarrow> real \<Rightarrow> FMSynth" where
  "setDecay s t = s\<lparr>envelope := ADSREnvelope_setDecay (envelope s) t\<rparr>"

definition setSustain :: "FMSynth \<Rightarrow> real \<Rightarrow> FMSynth" where
  "setSustain s l = s\<lparr>envelope := ADSREnvelope_setSustain (envelope s) l\<rparr>"

definition setRelease :: "FMSynth \<Rightarrow> real \<Rightarrow> FMSynth" where
  "setRelease s t = s\<lparr>envelope := ADSREnvelope_setRelease (envelope s) t\<rparr>"

text \<open>\<open>n\<close> successive calls of the voice's \<open>process\<close> (state only), and the sample
  returned by the call that follows them.\<close>

fun FMSynth_run :: "nat \<Rightarrow> FMSynth \<Rightarrow> FMSynth" where
  "FMSynth_run 0 s = s"
| "FMSynth_run (Suc n) s = FMSynth_run n (snd (FMSynth_process s))"

definition FMSynth_sample :: "nat \<Rightarrow> FMSynth \<Rightarrow> real" where
  "FMSynth_sample n s = fst (FMSynth_process (FMSynth_run n s))"

subsection \<open>Two concrete voices\<close>

text \<open>A voice with every modulation index at 0 and the Dual algorithm, one note started.\<close>

definition dual_voice :: FMSynth where
  "dual_voice =
     FMSynth_noteOn
       (setAlgorithm (setIndex4 (setIndex3 (setIndex2 (FMSynth_new 440 SAMPLE_RATE 0) 0) 0) 0)
          ALG_DUAL_CARRIER) 440"

text \<open>The end-to-end scenario: a fresh voice at 44100 Hz, modulator ratio 2, modulation
  index 3, Stack, every envelope time set to 0 and sustain to 1, then \<open>noteOn(440)\<close>. The
  indices of operators 3 and 4 are parameters (the constructor leaves them at 1.5 and 1).\<close>

definition scenario_voice :: "real \<Rightarrow> real \<Rightarrow> real \<Rightarrow> FMSynth" where
  "scenario_voice ri0 i3 i4 =
     FMSynth_noteOn
       (setRelease (setSustain (setDecay (setAttack
          (setAlgorithm
             (setIndex4 (setIndex3 (setIndex2 (setRatio2 (FMSynth_new 440 SAMPLE_RATE ri0) 2) 3) i3) i4)
             ALG_STACK) 0) 0) 1) 0)
       440"

text \<open>The phase of an oscillator at frequency \<open>f\<close> after \<open>n\<close> samples from phase 0, in closed
  form: \<open>n\<close> increments of \<open>TWO_PI \<sqdot> f / SAMPLE_RATE\<close>, less the whole multiples of \<open>TWO_PI\<close>.\<close>

definition wrapped_phase :: "real \<Rightarrow> nat \<Rightarrow> real" where
  "wrapped_phase f n = TWO_PI * frac (real n * f / SAMPLE_RATE)"

text \<open>The envelope level of the scenario after \<open>n\<close> samples: a ramp of 10/441 per sample
  (attack time 1 ms at 44100 Hz) up to 1.\<close>

definition scenario_level :: "nat \<Rightarrow> real" where
  "scenario_level n = min 1 (real n * 10 / 441)"

text \<open>The state of the scenario's voice after \<open>n\<close> samples.\<close>

definition scenario_inv :: "real \<Rightarrow> real \<Rightarrow> nat \<Rightarrow> FMSynth \<Rightarrow> bool" where
  "scenario_inv i3 i4 n s \<longleftrightarrow>
     algorithm s = ALG_STACK \<and> amplitude s = 0.3 \<and>
     index1 s = 0 \<and> index2 s = 3 \<and> index3 s = i3 \<and> index4 s = i4 \<and>
     phase (op1 s) = wrapped_phase 440 n \<and> phaseIncrement (op1 s) = TWO_PI * 440 / SAMPLE_RATE \<and>
     phase (op2 s) = wrapped_phase 880 n \<and> phaseIncrement (op2 s) = TWO_PI * 880 / SAMPLE_RATE \<and>
     phase (op3 s) = wrapped_phase 1320 n \<and> phaseIncrement (op3 s) = TWO_PI * 1320 / SAMPLE_RATE \<and>
     phase (op4 s) = wrapped_phase 1760 n \<and> phaseIncrement (op4 s) = TWO_PI * 1760 / SAMPLE_RATE \<and>
     attackIncrement (envelope s) = 10 / 441 \<and> decayIncrement (envelope s) = 0 \<and>
     sustainLevel (envelope s) = 1 \<and>
     currentLevel (envelope s) = scenario_level n \<and>
     state (envelope s) = (if n < 45 then ENV_ATTACK else if n = 45 then ENV_DECAY else ENV_SUSTAIN)"

section \<open>Voice pool (\<^verbatim>\<open>synth/voice.h\<close>, \<^verbatim>\<open>fm_synth_gui.cpp\<close>)\<close>

text \<open>The global array \<^verbatim>\<open>Voice voices[NUM_VOICES]\<close> is a list of \<open>NUM_VOICES\<close> slots. Each
  slot owns its voice (\<^verbatim>\<open>std::unique_ptr\<close>), so no two slots share state. The array has a
  fixed size; the list keeps the length \<open>NUM_VOICES\<close> under every operation below, so the
  reads \<open>vs ! i\<close> with \<open>i < NUM_VOICES\<close> are in range.\<close>

record Voice =
  synth :: FMSynth
  "note" :: int

text \<open>The loop \<^verbatim>\<open>for (int i = 0; i < NUM_VOICES; i++) if (P(voices[i])) return i;\<close>
  started at index \<open>i\<close>; \<open>None\<close> when it runs to the end.\<close>

function scan :: "(Voice \<Rightarrow> bool) \<Rightarrow> Voice list \<Rightarrow> nat \<Rightarrow> nat option" where
  "scan P vs i =
     (if i < NUM_VOICES then (if P (vs ! i) then Some i else scan P vs (Suc i)) else None)"
  by pat_completeness auto
termination
  by (relation "measure (\<lambda>(P, vs, i). NUM_VOICES - i)") auto

declare scan.simps [simp del]

definition findFreeVoice :: "Voice list \<Rightarrow> int" where
  "findFreeVoice vs =
     (case scan (\<lambda>v. note v = -1 \<and> \<not> FMSynth_isActive (synth v)) vs 0 of
        Some i \<Rightarrow> int i
      | None \<Rightarrow> (case scan (\<lambda>v. note v = -1) vs 0 of Some i \<Rightarrow> int i | None \<Rightarrow> 0))"

definition findVoiceWithNote :: "Voice list \<Rightarrow> int \<Rightarrow> int" where
  "findVoiceWithNote vs n =
     (case scan (\<lambda>v. note v = n) vs 0 of Some i \<Rightarrow> int i | None \<Rightarrow> -1)"

definition voiceNoteOn :: "Voice list \<Rightarrow> int \<Rightarrow> real \<Rightarrow> Voice list" where
  "voiceNoteOn vs n freq =
     (let existing = findVoiceWithNote vs n
      in if existing \<ge> 0 then vs
         else
           let v = nat (findFreeVoice vs)
           in vs[v := (vs ! v)\<lparr>synth := FMSynth_noteOn (synth (vs ! v)) freq, note := n\<rparr>])"

definition voiceNoteOff :: "Voice list \<Rightarrow> int \<Rightarrow> Voice list" where
  "voiceNoteOff vs n =
     (let v = findVoiceWithNote vs n
      in if v \<ge> 0
         then vs[nat v := (vs ! nat v)\<lparr>synth := FMSynth_noteOff (synth (vs ! nat v)), note := -1\<rparr>]
         else vs)"

text \<open>The pool as \<open>main\<close> builds it, the inner loop of \<open>audioCallback\<close> for one frame
  (every voice processes once; the mixed sample is not needed here), and the events that
  drive the pool.\<close>

definition voices_init :: "real \<Rightarrow> Voice list" where
  "voices_init ri0 = replicate NUM_VOICES \<lparr>synth = FMSynth_new 440 SAMPLE_RATE ri0, note = -1\<rparr>"

definition voices_frame :: "Voice list \<Rightarrow> Voice list" where
  "voices_frame vs = map (\<lambda>v. v\<lparr>synth := snd (FMSynth_process (synth v))\<rparr>) vs"

datatype PoolEvent = NoteOn int real | NoteOff int | Frame

fun pool_step :: "Voice list \<Rightarrow> PoolEvent \<Rightarrow> Voice list" where
  "pool_step vs (NoteOn n freq) = voiceNoteOn vs n freq"
| "pool_step vs (NoteOff n) = voiceNoteOff vs n"
| "pool_step vs Frame = voices_frame vs"

fun pool_run :: "Voice list \<Rightarrow> PoolEvent list \<Rightarrow> Voice list" where
  "pool_run vs [] = vs"
| "pool_run vs (ev # evs) = pool_run (pool_step vs ev) evs"

text \<open>The pool has \<open>NUM_VOICES\<close> slots and no assigned note occurs in two of them.\<close>

definition pool_inv :: "Voice list \<Rightarrow> bool" where
  "pool_inv vs \<longleftrightarrow>
     length vs = NUM_VOICES \<and>
     (\<forall>i<NUM_VOICES. \<forall>j<NUM_VOICES. i \<noteq> j \<and> note (vs ! i) \<noteq> -1 \<longrightarrow> note (vs ! i) \<noteq> note (vs ! j))"

section \<open>ADSR envelope in double precision\<close>

text \<open>
  A \<^verbatim>\<open>double\<close> is modelled as \<open>Dbl m e\<close>, standing for \<open>m \<sqdot> 2\<^sup>e\<close>. Every arithmetic operation
  computes the exact result and rounds it to a significand of 53 bits, to nearest, ties
  to even, as IEEE 754 binary64 does in its default rounding mode. The exponent is
  unbounded: overflow, subnormal numbers, infinities and NaN are not modelled, and a
  division by zero (infinity in C++) has no meaning here. None of them occurs in the run
  evaluated below, whose values lie between \<open>2\<^sup>-\<^sup>7\<^sup>0\<close> and 44100. A decimal literal of the
  source is the correctly rounded quotient \<open>d_lit p q\<close> of two integers.
\<close>

datatype double = Dbl (mant: int) (expo: int)

text \<open>The number of binary digits of a positive integer (0 for the others).\<close>

function bit_length :: "int \<Rightarrow> nat" where
  "bit_length a = (if a \<le> 0 then 0 else Suc (bit_length (a div 2)))"
  by pat_completeness auto
termination
  by (relation "measure nat") auto

declare bit_length.simps [simp del]

text \<open>Rounding \<open>m \<sqdot> 2\<^sup>e\<close> to 53 significant bits: the \<open>k\<close> surplus low bits \<open>r\<close> are dropped
  and the kept part \<open>q\<close> goes up by one when \<open>r\<close> is above half a unit \<open>h\<close>, or equal to
  it with \<open>q\<close> odd.\<close>

definition round53 :: "int \<Rightarrow> int \<Rightarrow> double" where
  "round53 m e =
     (let a = \<bar>m\<bar>; n = bit_length a
      in if n \<le> 53 then Dbl m e
         else
           let k = n - 53; q = a div 2 ^ k; r = a mod 2 ^ k; h = 2 ^ (k - 1);
               q' = (if h < r \<or> (r = h \<and> odd q) then q + 1 else q)
           in Dbl (sgn m * q') (e + int k))"

definition d_sub :: "double \<Rightarrow> double \<Rightarrow> double" where
  "d_sub x y =
     (let e = min (expo x) (expo y)
      in round53 (mant x * 2 ^ nat (expo x - e) - mant y * 2 ^ nat (expo y - e)) e)"


definition d_mul :: "double \<Rightarrow> double \<Rightarrow> double" where
  "d_mul x y = round53 (mant x * mant y) (expo x + expo y)"

text \<open>The quotient is computed to at least 55 bits; one more bit records whether a
  remainder is left, so that rounding the integer rounds the true quotient.\<close>

definition d_div :: "double \<Rightarrow> double \<Rightarrow> double" where
  "d_div x y =
     (let a = \<bar>mant x\<bar>; b = \<bar>mant y\<bar>;
          s = (bit_length b + 55) - bit_length a;
          q = (a * 2 ^ s) div b; r = (a * 2 ^ s) mod b;
          m = 2 * q + (if r = 0 then 0 else 1)
      in round53 (sgn (mant x) * sgn (mant y) * m) (expo x - expo y - int s - 1))"

definition d_less :: "double \<Rightarrow> double \<Rightarrow> bool" where
  "d_less x y =
     (let e = min (expo x) (expo y)
      in mant x * 2 ^ nat (expo x - e) < mant y * 2 ^ nat (expo y - e))"


definition d_lit :: "int \<Rightarrow> int \<Rightarrow> double" where
  "d_lit p q = d_div (Dbl p 0) (Dbl q 0)"

text \<open>\<^verbatim>\<open>std::max(a, b)\<close> is \<^verbatim>\<open>(a < b) ? b : a\<close> and \<^verbatim>\<open>std::min(a, b)\<close> is
  \<^verbatim>\<open>(b < a) ? b : a\<close>.\<close>

definition d_max :: "double \<Rightarrow> double \<Rightarrow> double" where
  "d_max a b = (if d_less a b then b else a)"

definition d_min :: "double \<Rightarrow> double \<Rightarrow> double" where
  "d_min a b = (if d_less b a then b else a)"

text \<open>The class \<^verbatim>\<open>ADSREnvelope\<close> once more, statement by statement as above, over
  \<open>double\<close>.\<close>

record ADSREnvelope64 =
  attackTime64 :: double
  decayTime64 :: double
  sustainLevel64 :: double
  releaseTime64 :: double
  state64 :: EnvelopeState
  currentLevel64 :: double
  sampleRate64 :: double
  attackIncrement64 :: double
  decayIncrement64 :: double
  releaseIncrement64 :: double
  releaseStartLevel64 :: double

definition updateIncrements64 :: "ADSREnvelope64 \<Rightarrow> ADSREnvelope64" where
  "updateIncrements64 e =
     e\<lparr>attackIncrement64 := d_div (d_lit 1 1) (d_mul (attackTime64 e) (sampleRate64 e)),
       decayIncrement64 :=
         d_div (d_sub (d_lit 1 1) (sustainLevel64 e)) (d_mul (decayTime64 e) (sampleRate64 e))\<rparr>"





definition setAttack64 :: "ADSREnvelope64 \<Rightarrow> double \<Rightarrow> ADSREnvelope64" where
  "setAttack64 e seconds = updateIncrements64 (e\<lparr>attackTime64 := d_max (d_lit 1 1000) seconds\<rparr>)"

definition setDecay64 :: "ADSREnvelope64 \<Rightarrow> double \<Rightarrow> ADSREnvelope64" where
  "setDecay64 e seconds = updateIncrements64 (e\<lparr>decayTime64 := d_max (d_lit 1 1000) seconds\<rparr>)"

definition setSustain64 :: "ADSREnvelope64 \<Rightarrow> double \<Rightarrow> ADSREnvelope64" where
  "setSustain64 e level =
     updateIncrements64 (e\<lparr>sustainLevel64 := d_max (d_lit 0 1) (d_min (d_lit 1 1) level)\<rparr>)"





section \<open>Basic facts\<close>

lemmas ALG_defs =
  ALG_STACK_def ALG_TWIN_def ALG_BRANCH_def ALG_PARALLEL_def ALG_DUAL_CARRIER_def
  ALG_TRIPLE_def ALG_COUNT_def

section \<open>Frame properties of the voice\<close>

text \<open>
  Claim C8. Whenever the voice's envelope is inactive, \<open>FMSynth::process()\<close> returns 0 and
  leaves the whole voice state as it was: no oscillator phase advances and \<open>prevSample1\<close>
  keeps its value.
\<close>

theorem process_inactive_silent:
  assumes "\<not> ADSREnvelope_isActive (envelope s)"
  shows "FMSynth_process s = (0, s)"
  using assms by (simp add: FMSynth_process_def)

theorem process_inactive_silent_witness:
  "\<not> ADSREnvelope_isActive (envelope (FMSynth_new 440 SAMPLE_RATE 0)) \<and>
   FMSynth_process (FMSynth_new 440 SAMPLE_RATE 0) = (0, FMSynth_new 440 SAMPLE_RATE 0)"
proof -
  have idle: "\<not> ADSREnvelope_isActive (envelope (FMSynth_new 440 SAMPLE_RATE 0))"
    by (simp add: FMSynth_new_def ADSREnvelope_new_def updateIncrements_def
        ADSREnvelope_isActive_def)
  from idle process_inactive_silent [OF idle] show ?thesis by simp
qed

text \<open>
  Claim C9. For every algorithm value outside the enumerated routing algorithms
  (Stack, Twin, Branch, Parallel, Dual, Triple) \<open>FMSynth::process()\<close> returns 0.
\<close>

theorem process_invalid_algorithm_silent:
  assumes "algorithm s \<notin> {ALG_STACK, ALG_TWIN, ALG_BRANCH, ALG_PARALLEL, ALG_DUAL_CARRIER, ALG_TRIPLE}"
  shows "fst (FMSynth_process s) = 0"
  using assms by (simp add: FMSynth_process_def Let_def split: prod.split)

theorem process_invalid_algorithm_silent_witness:
  "algorithm (setAlgorithm (FMSynth_noteOn (FMSynth_new 440 SAMPLE_RATE 0) 440) ALG_COUNT)
     \<notin> {ALG_STACK, ALG_TWIN, ALG_BRANCH, ALG_PARALLEL, ALG_DUAL_CARRIER, ALG_TRIPLE} \<and>
   fst (FMSynth_process (setAlgorithm (FMSynth_noteOn (FMSynth_new 440 SAMPLE_RATE 0) 440) ALG_COUNT)) = 0"
proof -
  have bad: "algorithm (setAlgorithm (FMSynth_noteOn (FMSynth_new 440 SAMPLE_RATE 0) 440) ALG_COUNT)
     \<notin> {ALG_STACK, ALG_TWIN, ALG_BRANCH, ALG_PARALLEL, ALG_DUAL_CARRIER, ALG_TRIPLE}"
    by (simp add: setAlgorithm_def ALG_defs)
  from bad process_invalid_algorithm_silent [OF bad] show ?thesis by simp
qed

text \<open>
  Claim C10. When \<open>FMSynth::process()\<close> is called with an active envelope and an invalid
  algorithm value, the returned sample is 0 and the voice state changes in exactly one
  place: the envelope has been advanced by one call of its own \<open>process\<close>. The four
  oscillators and \<open>prevSample1\<close> are as before. The call is therefore not a no-op: it
  consumes envelope time.
\<close>

theorem process_invalid_algorithm_advances_envelope:
  assumes "ADSREnvelope_isActive (envelope s)"
    and "algorithm s \<notin> {ALG_STACK, ALG_TWIN, ALG_BRANCH, ALG_PARALLEL, ALG_DUAL_CARRIER, ALG_TRIPLE}"
  shows "FMSynth_process s = (0, s\<lparr>envelope := snd (ADSREnvelope_process (envelope s))\<rparr>)"
  using assms by (simp add: FMSynth_process_def Let_def split: prod.split)

theorem process_invalid_algorithm_advances_envelope_witness:
  "ADSREnvelope_isActive (envelope (setAlgorithm (FMSynth_noteOn (FMSynth_new 440 SAMPLE_RATE 0) 440) 7)) \<and>
   algorithm (setAlgorithm (FMSynth_noteOn (FMSynth_new 440 SAMPLE_RATE 0) 440) 7)
     \<notin> {ALG_STACK, ALG_TWIN, ALG_BRANCH, ALG_PARALLEL, ALG_DUAL_CARRIER, ALG_TRIPLE} \<and>
   fst (FMSynth_process (setAlgorithm (FMSynth_noteOn (FMSynth_new 440 SAMPLE_RATE 0) 440) 7)) = 0 \<and>
   currentLevel (envelope (setAlgorithm (FMSynth_noteOn (FMSynth_new 440 SAMPLE_RATE 0) 440) 7)) = 0 \<and>
   currentLevel (envelope (snd (FMSynth_process
       (setAlgorithm (FMSynth_noteOn (FMSynth_new 440 SAMPLE_RATE 0) 440) 7)))) = 1 / 441"
proof -
  let ?s = "setAlgorithm (FMSynth_noteOn (FMSynth_new 440 SAMPLE_RATE 0) 440) 7"
  have act: "ADSREnvelope_isActive (envelope ?s)"
    by (simp add: setAlgorithm_def FMSynth_noteOn_def ADSREnvelope_noteOn_def
        ADSREnvelope_isActive_def)
  have bad: "algorithm ?s
     \<notin> {ALG_STACK, ALG_TWIN, ALG_BRANCH, ALG_PARALLEL, ALG_DUAL_CARRIER, ALG_TRIPLE}"
    by (simp add: setAlgorithm_def ALG_defs)
  have env: "envelope ?s = ADSREnvelope_noteOn (ADSREnvelope_new SAMPLE_RATE 0)"
    by (simp add: setAlgorithm_def FMSynth_noteOn_def FMSynth_new_def)
  have lvl: "currentLevel (snd (ADSREnvelope_process (envelope ?s))) = 1 / 441"
    unfolding env
    by (simp add: ADSREnvelope_process_def ADSREnvelope_noteOn_def ADSREnvelope_new_def
        updateIncrements_def SAMPLE_RATE_def Let_def)
  have lvl0: "currentLevel (envelope ?s) = 0"
    unfolding env by (simp add: ADSREnvelope_noteOn_def ADSREnvelope_new_def updateIncrements_def)
  from act bad lvl lvl0 process_invalid_algorithm_advances_envelope [OF act bad]
  show ?thesis by simp
qed

section \<open>The oscillator's phase\<close>

lemma TWO_PI_pos: "0 < TWO_PI"
  by (simp add: TWO_PI_def)

lemma Oscillator_process_output: "fst (Oscillator_process osc m) = sin (phase osc + m)"
  by (simp add: Oscillator_process_def Let_def)

lemma Oscillator_process_phase_range:
  assumes "0 \<le> phase osc" "phase osc < TWO_PI"
    and "0 \<le> phaseIncrement osc" "phaseIncrement osc \<le> TWO_PI"
  shows "0 \<le> phase (snd (Oscillator_process osc m)) \<and>
         phase (snd (Oscillator_process osc m)) < TWO_PI"
  using assms by (simp add: Oscillator_process_def Let_def)

lemma Oscillator_process_fields:
  "phaseIncrement (snd (Oscillator_process osc m)) = phaseIncrement osc"
  "frequency (snd (Oscillator_process osc m)) = frequency osc"
  "osc_sampleRate (snd (Oscillator_process osc m)) = osc_sampleRate osc"
  by (simp_all add: Oscillator_process_def Let_def)

lemma Oscillator_run_phase_range:
  assumes "0 \<le> phase osc" "phase osc < TWO_PI"
    and "0 \<le> phaseIncrement osc" "phaseIncrement osc \<le> TWO_PI"
  shows "0 \<le> phase (Oscillator_run ms osc) \<and> phase (Oscillator_run ms osc) < TWO_PI"
  using assms
proof (induction ms arbitrary: osc)
  case Nil
  then show ?case by simp
next
  case (Cons m ms)
  from Oscillator_process_phase_range [OF Cons.prems, of m] Cons.prems(3,4)
  show ?case by (simp add: Cons.IH Oscillator_process_fields)
qed

text \<open>
  Below the sample rate the wrap does its work. An oscillator built for \<open>f\<close> and \<open>sr\<close> with
  \<open>0 < f \<le> sr\<close> and never retuned keeps its phase within \<open>[0, TWO_PI)\<close> after every
  \<open>process()\<close> call, whatever the modulation inputs \<open>ms\<close> were, and the sample returned by
  the next call is \<open>sin (phase_before + modulation)\<close>.
\<close>

lemma oscillator_phase_in_range:
  assumes "0 < f" "f \<le> sr"
  shows "0 \<le> phase (Oscillator_run ms (Oscillator_new f sr)) \<and>
         phase (Oscillator_run ms (Oscillator_new f sr)) < TWO_PI \<and>
         fst (Oscillator_process (Oscillator_run ms (Oscillator_new f sr)) m) =
           sin (phase (Oscillator_run ms (Oscillator_new f sr)) + m)"
proof -
  from assms have sr: "0 < sr" by simp
  have "TWO_PI * f / sr \<le> TWO_PI" "0 \<le> TWO_PI * f / sr"
    using assms sr TWO_PI_pos by (simp_all add: pos_divide_le_eq)
  then have "0 \<le> phase (Oscillator_run ms (Oscillator_new f sr)) \<and>
         phase (Oscillator_run ms (Oscillator_new f sr)) < TWO_PI"
    using TWO_PI_pos
    by (intro Oscillator_run_phase_range)
       (simp_all add: Oscillator_new_def updatePhaseIncrement_def)
  then show ?thesis by (simp add: Oscillator_process_output)
qed

text \<open>
  Claim C4 says that for every \<open>f > 0\<close> and \<open>sr > 0\<close> the phase lies within \<open>[0, 2\<pi>)\<close> after
  every \<open>process()\<close> call. The code misses it above the sample rate. The top A of the
  on-screen piano in octave 8 is 7040 Hz; with ratio 8 the operator runs at 56320 Hz
  against a sample rate of 44100 Hz. Each call adds more than \<open>TWO_PI\<close> and the single
  \<^verbatim>\<open>if (phase >= TWO_PI) phase -= TWO_PI;\<close> takes \<open>TWO_PI\<close> off once, so the phase climbs;
  after five calls it is beyond both \<open>TWO_PI\<close> and \<open>2\<pi>\<close>.
\<close>

theorem oscillator_phase_escapes:
  "0 < (56320::real) \<and> 0 < SAMPLE_RATE \<and>
   TWO_PI \<le> phase (Oscillator_run [0, 0, 0, 0, 0] (Oscillator_new 56320 SAMPLE_RATE)) \<and>
   2 * pi < phase (Oscillator_run [0, 0, 0, 0, 0] (Oscillator_new 56320 SAMPLE_RATE))"
proof -
  have ph: "phase (Oscillator_run [0, 0, 0, 0, 0] (Oscillator_new 56320 SAMPLE_RATE)) =
      TWO_PI * 611 / 441"
    by (simp add: Oscillator_process_def Oscillator_new_def
        updatePhaseIncrement_def SAMPLE_RATE_def TWO_PI_def Let_def)
  have "2 * pi < 8" using pi_less_4 by simp
  also have "(8::real) < TWO_PI * 611 / 441" by (simp add: TWO_PI_def)
  finally have "2 * pi < TWO_PI * 611 / 441" .
  moreover have "TWO_PI \<le> TWO_PI * 611 / 441" by (simp add: TWO_PI_def)
  moreover have "0 < SAMPLE_RATE" by (simp add: SAMPLE_RATE_def)
  ultimately show ?thesis unfolding ph by simp
qed

section \<open>The envelope\<close>

lemma env_inv_new: "0 < sr \<Longrightarrow> env_inv (ADSREnvelope_new sr ri0)"
  by (simp add: env_inv_def ADSREnvelope_new_def updateIncrements_def)

lemma env_inv_noteOn: "env_inv e \<Longrightarrow> env_inv (ADSREnvelope_noteOn e)"
  by (simp add: env_inv_def ADSREnvelope_noteOn_def)

lemma env_inv_noteOff: "env_inv e \<Longrightarrow> env_inv (ADSREnvelope_noteOff e)"
  by (simp add: env_inv_def ADSREnvelope_noteOff_def)

lemma process_level_bounds:
  assumes "0 \<le> currentLevel e" "currentLevel e \<le> 1"
    and "0 \<le> sustainLevel e" "sustainLevel e \<le> 1"
    and "0 \<le> attackIncrement e" "0 \<le> decayIncrement e"
    and "state e = ENV_RELEASE \<longrightarrow> 0 \<le> releaseIncrement e"
  shows "0 \<le> currentLevel (snd (ADSREnvelope_process e)) \<and>
         currentLevel (snd (ADSREnvelope_process e)) \<le> 1"
  using assms by (cases "state e") (simp_all add: ADSREnvelope_process_def Let_def)

lemma process_params:
  "attackTime (snd (ADSREnvelope_process e)) = attackTime e"
  "decayTime (snd (ADSREnvelope_process e)) = decayTime e"
  "sustainLevel (snd (ADSREnvelope_process e)) = sustainLevel e"
  "releaseTime (snd (ADSREnvelope_process e)) = releaseTime e"
  "env_sampleRate (snd (ADSREnvelope_process e)) = env_sampleRate e"
  "attackIncrement (snd (ADSREnvelope_process e)) = attackIncrement e"
  "decayIncrement (snd (ADSREnvelope_process e)) = decayIncrement e"
  "releaseIncrement (snd (ADSREnvelope_process e)) = releaseIncrement e"
  by (cases "state e"; simp add: ADSREnvelope_process_def Let_def)+

lemma process_release_origin:
  "state (snd (ADSREnvelope_process e)) = ENV_RELEASE \<Longrightarrow> state e = ENV_RELEASE"
  by (cases "state e") (simp_all add: ADSREnvelope_process_def Let_def split: if_splits)

lemma env_inv_process:
  assumes inv: "env_inv e"
  shows "env_inv (snd (ADSREnvelope_process e))"
proof -
  have a: "0 \<le> attackIncrement e" and d: "0 \<le> decayIncrement e"
    using inv by (simp_all add: env_inv_def)
  from inv have r: "state e = ENV_RELEASE \<longrightarrow> 0 \<le> releaseIncrement e"
    by (simp add: env_inv_def)
  from inv have "0 \<le> currentLevel e" "currentLevel e \<le> 1"
    "0 \<le> sustainLevel e" "sustainLevel e \<le> 1"
    by (simp_all add: env_inv_def)
  from process_level_bounds [OF this a d r] inv r process_release_origin [of e]
  show ?thesis
    unfolding env_inv_def process_params by blast
qed

lemma env_inv_setAttack: "env_inv e \<Longrightarrow> env_inv (ADSREnvelope_setAttack e t)"
  by (simp add: env_inv_def ADSREnvelope_setAttack_def updateIncrements_def)

lemma env_inv_setDecay: "env_inv e \<Longrightarrow> env_inv (ADSREnvelope_setDecay e t)"
  by (simp add: env_inv_def ADSREnvelope_setDecay_def updateIncrements_def)

lemma env_inv_setSustain: "env_inv e \<Longrightarrow> env_inv (ADSREnvelope_setSustain e l)"
  by (simp add: env_inv_def ADSREnvelope_setSustain_def updateIncrements_def)

lemma env_inv_setRelease: "env_inv e \<Longrightarrow> env_inv (ADSREnvelope_setRelease e t)"
  by (simp add: env_inv_def ADSREnvelope_setRelease_def updateIncrements_def)

lemma env_inv_apply: "env_inv e \<Longrightarrow> env_inv (env_apply e x)"
  by (cases x) (simp_all add: env_inv_noteOn env_inv_noteOff env_inv_process
      env_inv_setAttack env_inv_setDecay env_inv_setSustain env_inv_setRelease)

lemma env_inv_apply_all: "env_inv e \<Longrightarrow> env_inv (env_apply_all e xs)"
  by (induction xs arbitrary: e) (simp_all add: env_inv_apply)

text \<open>
  Claim C5. An envelope is built for a sample rate \<open>sr > 0\<close> and driven by any sequence
  \<open>ops\<close> of \<open>noteOn\<close>, \<open>noteOff\<close>, \<open>process\<close> and the four setters with arbitrary real
  arguments. After the sequence (hence after each of its operations, every prefix being
  a sequence too) \<open>currentLevel\<close> lies in \<open>[0, 1]\<close>. A \<open>noteOn\<close> issued then moves the state
  to Attack and leaves \<open>currentLevel\<close> as it is: the attack restarts from the current level,
  not from 0.
\<close>

theorem envelope_level_invariant:
  assumes "0 < sr"
  shows "0 \<le> currentLevel (env_apply_all (ADSREnvelope_new sr ri0) ops) \<and>
         currentLevel (env_apply_all (ADSREnvelope_new sr ri0) ops) \<le> 1 \<and>
         state (ADSREnvelope_noteOn (env_apply_all (ADSREnvelope_new sr ri0) ops)) = ENV_ATTACK \<and>
         currentLevel (ADSREnvelope_noteOn (env_apply_all (ADSREnvelope_new sr ri0) ops)) =
           currentLevel (env_apply_all (ADSREnvelope_new sr ri0) ops)"
proof -
  from assms have "env_inv (env_apply_all (ADSREnvelope_new sr ri0) ops)"
    by (intro env_inv_apply_all env_inv_new)
  then show ?thesis by (simp add: env_inv_def ADSREnvelope_noteOn_def)
qed

theorem envelope_level_invariant_witness:
  "0 < SAMPLE_RATE \<and>
   state (env_apply_all (ADSREnvelope_new SAMPLE_RATE 0) [OpNoteOn, OpProcess, OpSetSustain 5])
     = ENV_ATTACK \<and>
   currentLevel (env_apply_all (ADSREnvelope_new SAMPLE_RATE 0) [OpNoteOn, OpProcess, OpSetSustain 5])
     = 1 / 441 \<and>
   currentLevel (ADSREnvelope_noteOn
      (env_apply_all (ADSREnvelope_new SAMPLE_RATE 0) [OpNoteOn, OpProcess, OpSetSustain 5]))
     = 1 / 441"
proof -
  have sr: "0 < SAMPLE_RATE" by (simp add: SAMPLE_RATE_def)
  have c: "currentLevel (env_apply_all (ADSREnvelope_new SAMPLE_RATE 0)
             [OpNoteOn, OpProcess, OpSetSustain 5]) = 1 / 441"
    "state (env_apply_all (ADSREnvelope_new SAMPLE_RATE 0)
             [OpNoteOn, OpProcess, OpSetSustain 5]) = ENV_ATTACK"
    by (simp_all add: ADSREnvelope_new_def ADSREnvelope_noteOn_def ADSREnvelope_process_def
        ADSREnvelope_setSustain_def updateIncrements_def SAMPLE_RATE_def Let_def)
  from envelope_level_invariant [OF sr, of 0 "[OpNoteOn, OpProcess, OpSetSustain 5]"] sr c
  show ?thesis by simp
qed

subsection \<open>Release\<close>

lemma run_idle:
  "state e = ENV_IDLE \<Longrightarrow> currentLevel e = 0 \<Longrightarrow>
   state (ADSREnvelope_run n e) = ENV_IDLE \<and> currentLevel (ADSREnvelope_run n e) = 0"
  by (induction n arbitrary: e) (simp_all add: ADSREnvelope_process_def)

lemma run_release_done:
  "state e = ENV_RELEASE \<Longrightarrow> 0 < n \<Longrightarrow> currentLevel e - real n * releaseIncrement e \<le> 0 \<Longrightarrow>
   0 \<le> releaseIncrement e \<Longrightarrow>
   state (ADSREnvelope_run n e) = ENV_IDLE \<and> currentLevel (ADSREnvelope_run n e) = 0"
proof (induction n arbitrary: e)
  case 0
  then show ?case by simp
next
  case (Suc n)
  let ?e' = "snd (ADSREnvelope_process e)"
  show ?case
  proof (cases "currentLevel e - releaseIncrement e \<le> 0")
    case True
    with Suc.prems have "state ?e' = ENV_IDLE" "currentLevel ?e' = 0"
      by (simp_all add: ADSREnvelope_process_def Let_def)
    then show ?thesis using run_idle [of ?e' n] by simp
  next
    case False
    with Suc.prems have st: "state ?e' = ENV_RELEASE"
      and lv: "currentLevel ?e' = currentLevel e - releaseIncrement e"
      and ri: "releaseIncrement ?e' = releaseIncrement e"
      by (simp_all add: ADSREnvelope_process_def Let_def)
    from Suc.prems(3) have le: "currentLevel ?e' - real n * releaseIncrement ?e' \<le> 0"
      by (simp add: lv ri algebra_simps)
    from False le lv ri have "0 < n" by (cases n) simp_all
    with Suc.IH [of ?e'] st le ri Suc.prems(4) show ?thesis by simp
  qed
qed

lemma noteOff_release_general:
  assumes act: "state e \<noteq> ENV_IDLE"
    and rt: "0 < releaseTime e"
    and sr: "0 < env_sampleRate e"
    and lv: "0 \<le> currentLevel e"
    and n: "releaseTime e * env_sampleRate e \<le> real n"
  shows "releaseIncrement (ADSREnvelope_noteOff e) =
           currentLevel e / (releaseTime e * env_sampleRate e) \<and>
         state (ADSREnvelope_run n (ADSREnvelope_noteOff e)) = ENV_IDLE \<and>
         currentLevel (ADSREnvelope_run n (ADSREnvelope_noteOff e)) = 0"
proof -
  let ?N = "releaseTime e * env_sampleRate e"
  let ?e = "ADSREnvelope_noteOff e"
  from rt sr have N: "0 < ?N" by simp
  from act rt have ri: "releaseIncrement ?e = currentLevel e / ?N"
    and st: "state ?e = ENV_RELEASE" and cl: "currentLevel ?e = currentLevel e"
    by (simp_all add: ADSREnvelope_noteOff_def)
  from N n have npos: "0 < n" by (cases n) simp_all
  from N lv have ri0: "0 \<le> releaseIncrement ?e" by (simp add: ri)
  from N n have "1 \<le> real n / ?N" by (simp add: field_simps)
  then have "currentLevel e * 1 \<le> currentLevel e * (real n / ?N)"
    using lv by (rule mult_left_mono)
  then have "currentLevel ?e - real n * releaseIncrement ?e \<le> 0"
    by (simp add: ri cl field_simps)
  with run_release_done [OF st npos _ ri0] ri show ?thesis by simp
qed

text \<open>
  In exact arithmetic the release ends on time. Let \<open>e\<close> be any envelope state of the
  real-valued model reached from the constructor (sample rate \<open>sr > 0\<close>), not Idle, at
  level \<open>L = currentLevel e\<close>. Then \<open>noteOff\<close> sets \<open>releaseIncrement\<close> to
  \<open>L / (releaseTime \<sqdot> sampleRate)\<close>, and after any number \<open>n \<ge> releaseTime \<sqdot> sampleRate\<close> of
  \<open>process()\<close> calls the level is 0 and the state is Idle. This says nothing yet about the
  program, whose subtractions round; see the next subsection.
\<close>

lemma noteOff_release_exact:
  assumes "0 < sr"
    and "e = env_apply_all (ADSREnvelope_new sr ri0) ops"
    and "state e \<noteq> ENV_IDLE"
    and "releaseTime e * env_sampleRate e \<le> real n"
  shows "releaseIncrement (ADSREnvelope_noteOff e) =
           currentLevel e / (releaseTime e * env_sampleRate e) \<and>
         state (ADSREnvelope_run n (ADSREnvelope_noteOff e)) = ENV_IDLE \<and>
         currentLevel (ADSREnvelope_run n (ADSREnvelope_noteOff e)) = 0"
proof -
  from assms(1,2) have "env_inv e"
    by (simp add: env_inv_apply_all env_inv_new)
  then have "0 < releaseTime e" "0 < env_sampleRate e" "0 \<le> currentLevel e"
    by (simp_all add: env_inv_def)
  with assms(3,4) show ?thesis
    by (intro noteOff_release_general)
qed

subsection \<open>Release in double precision\<close>

text \<open>\<open>bit_length\<close> counts binary digits, and \<open>round53\<close> returns a nearest number with 53
  digits: the error is at most half a unit of the last place kept.\<close>

lemma bit_length_bounds:
  "0 < a \<Longrightarrow> 2 ^ (bit_length a - 1) \<le> a \<and> a < 2 ^ bit_length a"
proof (induction a rule: bit_length.induct)
  case (1 a)
  show ?case
  proof (cases "a = 1")
    case True
    then show ?thesis by (simp add: bit_length.simps [of 1] bit_length.simps [of 0])
  next
    case False
    with "1.prems" have half: "0 < a div 2" by simp
    with "1.IH" "1.prems" have ih: "2 ^ (bit_length (a div 2) - 1) \<le> a div 2"
      "a div 2 < 2 ^ bit_length (a div 2)" by simp_all
    from half have pos: "0 < bit_length (a div 2)"
      by (simp add: bit_length.simps [of "a div 2"])
    from "1.prems" have bl: "bit_length a = Suc (bit_length (a div 2))"
      by (simp add: bit_length.simps [of a])
    from pos have p: "(2::int) ^ bit_length (a div 2) = 2 * 2 ^ (bit_length (a div 2) - 1)"
      by (cases "bit_length (a div 2)") simp_all
    from ih p show ?thesis unfolding bl by simp linarith
  qed
qed

lemma half_even_error:
  fixes a q r h p :: int
  assumes "a = q * p + r" "0 \<le> r" "r < p" "p = 2 * h"
  shows "2 * \<bar>(if h < r \<or> (r = h \<and> odd q) then q + 1 else q) * p - a\<bar> \<le> p"
proof (cases "h < r \<or> (r = h \<and> odd q)")
  case True
  then have hr: "h \<le> r" by auto
  have "(q + 1) * p - a = p - r" unfolding assms(1) by (simp add: algebra_simps)
  moreover from hr assms(3,4) have "2 * \<bar>p - r\<bar> \<le> p" by arith
  ultimately show ?thesis using True by (simp only: if_True)
next
  case False
  then have rh: "r \<le> h" by auto
  have "q * p - a = - r" unfolding assms(1) by simp
  moreover from rh assms(2,4) have "2 * \<bar>- r\<bar> \<le> p" by arith
  ultimately show ?thesis using False by (simp only: if_False)
qed

lemma round53_nearest:
  assumes "53 < bit_length \<bar>m\<bar>"
  shows "expo (round53 m e) = e + int (bit_length \<bar>m\<bar> - 53) \<and>
         2 * \<bar>mant (round53 m e) * 2 ^ (bit_length \<bar>m\<bar> - 53) - m\<bar>
           \<le> 2 ^ (bit_length \<bar>m\<bar> - 53)"
proof -
  define a where "a = \<bar>m\<bar>"
  define k where "k = bit_length a - 53"
  define p :: int where "p = 2 ^ k"
  define h :: int where "h = 2 ^ (k - 1)"
  define q where "q = a div p"
  define r where "r = a mod p"
  define q' where "q' = (if h < r \<or> (r = h \<and> odd q) then q + 1 else q)"
  from assms have k: "0 < k" by (simp add: k_def a_def)
  then have two: "p = 2 * h" unfolding p_def h_def by (cases k) simp_all
  have pp: "0 < p" by (simp add: p_def)
  have dm: "a = q * p + r" unfolding q_def r_def by (rule div_mult_mod_eq [symmetric])
  have r: "0 \<le> r" "r < p" using pp by (simp_all add: r_def)
  from assms have rd: "round53 m e = Dbl (sgn m * q') (e + int k)"
    by (simp add: round53_def Let_def q'_def q_def r_def h_def p_def k_def a_def)
  have err: "2 * \<bar>q' * p - a\<bar> \<le> p"
    unfolding q'_def using dm r two by (rule half_even_error)
  have "\<bar>sgn m * q' * p - m\<bar> = \<bar>q' * p - a\<bar>"
  proof (cases "0 \<le> m")
    case True
    with assms have "0 < m" by (cases "m = 0") (simp_all add: bit_length.simps [of 0])
    then show ?thesis by (simp add: a_def)
  next
    case False
    then have "sgn m = -1" "a = - m" by (simp_all add: a_def)
    then have "sgn m * q' * p - m = - (q' * p - a)" by (simp add: algebra_simps)
    then show ?thesis by (simp only: abs_minus_cancel)
  qed
  with err rd show ?thesis by (simp add: p_def k_def a_def)
qed






section \<open>The routing algorithms with modulation switched off\<close>

lemma process_dual_zero_index:
  assumes "index1 s = 0" "index2 s = 0" "index3 s = 0" "index4 s = 0"
    and "ADSREnvelope_isActive (envelope s)" and "algorithm s = ALG_DUAL_CARRIER"
  shows "fst (FMSynth_process s) =
     (sin (phase (op1 s)) + sin (phase (op3 s)) * 0.7) * amplitude s
       * fst (ADSREnvelope_process (envelope s)) * 0.7"
  using assms
  by (simp add: FMSynth_process_def Oscillator_process_def Let_def ALG_defs split: prod.split)

lemma process_attack_rising:
  "state e = ENV_ATTACK \<Longrightarrow> currentLevel e + attackIncrement e < 1 \<Longrightarrow>
   fst (ADSREnvelope_process e) = currentLevel e + attackIncrement e"
  by (simp add: ADSREnvelope_process_def Let_def)

lemma dual_mix_differs:
  fixes p :: real
  assumes "0 < p" "3 * p \<le> 1"
  shows "(sin p + sin (3 * p) * 0.7) * 0.7 \<noteq> sin p"
    and "(sin p + sin (3 * p) * 0.7) * 0.7 * 2 \<noteq> sin p"
proof -
  have pi2: "1 \<le> pi / 2" using pi_ge_two by simp
  from assms pi2 have "sin p < sin (3 * p)"
    by (intro sin_monotone_2pi) simp_all
  moreover from assms pi2 have "0 < sin p"
    by (intro sin_gt_zero2) simp_all
  ultimately show "(sin p + sin (3 * p) * 0.7) * 0.7 \<noteq> sin p"
    and "(sin p + sin (3 * p) * 0.7) * 0.7 * 2 \<noteq> sin p"
    by simp_all
qed

lemma dual_voice_1:
  "phase (op1 (snd (FMSynth_process dual_voice))) = TWO_PI * 440 / 44100"
  "phase (op3 (snd (FMSynth_process dual_voice))) = TWO_PI * 1320 / 44100"
  "algorithm (snd (FMSynth_process dual_voice)) = ALG_DUAL_CARRIER"
  "index1 (snd (FMSynth_process dual_voice)) = 0"
  "index2 (snd (FMSynth_process dual_voice)) = 0"
  "index3 (snd (FMSynth_process dual_voice)) = 0"
  "index4 (snd (FMSynth_process dual_voice)) = 0"
  "amplitude (snd (FMSynth_process dual_voice)) = 0.3"
  "state (envelope (snd (FMSynth_process dual_voice))) = ENV_ATTACK"
  "currentLevel (envelope (snd (FMSynth_process dual_voice))) = 1 / 441"
  "attackIncrement (envelope (snd (FMSynth_process dual_voice))) = 1 / 441"
  by (simp_all add: dual_voice_def FMSynth_noteOn_def setAlgorithm_def setIndex4_def setIndex3_def
      setIndex2_def FMSynth_new_def FMSynth_process_def Oscillator_process_def Oscillator_new_def
      Oscillator_reset_def Oscillator_setFrequency_def updatePhaseIncrement_def
      ADSREnvelope_new_def ADSREnvelope_noteOn_def ADSREnvelope_process_def
      ADSREnvelope_isActive_def updateIncrements_def ALG_defs SAMPLE_RATE_def TWO_PI_def Let_def)

text \<open>
  Claim C1, as the code has it. With all four modulation indices at 0 and the envelope
  active, one call of \<open>FMSynth::process()\<close> returns, \<open>envLevel\<close> being the level the envelope
  returns in that call and the phases those before the call:
  \<^item> Stack, Twin, Branch, Parallel: \<open>amplitude \<times> envLevel \<times> sin (phase of op1)\<close>;
  \<^item> Dual: \<open>(sin (phase of op1) + 0.7 \<times> sin (phase of op3)) \<times> amplitude \<times> envLevel \<times> 0.7\<close>;
  \<^item> Triple: \<open>(sin (phase of op1) + 0.6 \<times> sin (phase of op2) + 0.4 \<times> sin (phase of op3))
    \<times> amplitude \<times> envLevel \<times> 0.5\<close>;
  \<^item> any other algorithm value: 0.
\<close>

theorem zero_index_output:
  assumes "index1 s = 0" "index2 s = 0" "index3 s = 0" "index4 s = 0"
    and "ADSREnvelope_isActive (envelope s)"
  shows "fst (FMSynth_process s) =
     (let envLevel = fst (ADSREnvelope_process (envelope s))
      in if algorithm s \<in> {ALG_STACK, ALG_TWIN, ALG_BRANCH, ALG_PARALLEL}
           then amplitude s * envLevel * sin (phase (op1 s))
         else if algorithm s = ALG_DUAL_CARRIER
           then (sin (phase (op1 s)) + sin (phase (op3 s)) * 0.7) * amplitude s * envLevel * 0.7
         else if algorithm s = ALG_TRIPLE
           then (sin (phase (op1 s)) + sin (phase (op2 s)) * 0.6 + sin (phase (op3 s)) * 0.4)
                * amplitude s * envLevel * 0.5
         else 0)"
  using assms
  by (simp add: FMSynth_process_def Oscillator_process_def Let_def ALG_defs split: prod.split)

theorem zero_index_output_witness:
  "index1 (snd (FMSynth_process dual_voice)) = 0 \<and> index2 (snd (FMSynth_process dual_voice)) = 0 \<and>
   index3 (snd (FMSynth_process dual_voice)) = 0 \<and> index4 (snd (FMSynth_process dual_voice)) = 0 \<and>
   ADSREnvelope_isActive (envelope (snd (FMSynth_process dual_voice))) \<and>
   fst (FMSynth_process (snd (FMSynth_process dual_voice))) =
     (sin (TWO_PI * 440 / 44100) + sin (TWO_PI * 1320 / 44100) * 0.7) * 0.3 * (2 / 441) * 0.7"
proof -
  let ?s = "snd (FMSynth_process dual_voice)"
  note f = dual_voice_1
  have act: "ADSREnvelope_isActive (envelope ?s)"
    using f(9) by (simp add: ADSREnvelope_isActive_def)
  have lvl: "fst (ADSREnvelope_process (envelope ?s)) = 2 / 441"
    using process_attack_rising [of "envelope ?s"] by (simp add: f)
  from zero_index_output [OF f(4) f(5) f(6) f(7) act] act f lvl
  show ?thesis by (simp add: ALG_defs)
qed

text \<open>
  Claim C1 as stated fails for Dual. A fresh voice gets indices 2 to 4 set to 0 (index 1
  is 0 from the constructor), the Dual algorithm and a note at 440 Hz. Its second
  \<open>process()\<close> call runs with all indices 0 and an active envelope, and returns a sample
  different from \<open>amplitude \<times> envLevel \<times> sin (phase of op1)\<close>, whether \<open>envLevel\<close> is the
  level the envelope returns in that call or the level before it: operator 3 is a second
  carrier.
\<close>

theorem zero_index_dual_counterexample:
  "index1 (snd (FMSynth_process dual_voice)) = 0 \<and> index2 (snd (FMSynth_process dual_voice)) = 0 \<and>
   index3 (snd (FMSynth_process dual_voice)) = 0 \<and> index4 (snd (FMSynth_process dual_voice)) = 0 \<and>
   ADSREnvelope_isActive (envelope (snd (FMSynth_process dual_voice))) \<and>
   algorithm (snd (FMSynth_process dual_voice)) = ALG_DUAL_CARRIER \<and>
   fst (FMSynth_process (snd (FMSynth_process dual_voice))) \<noteq>
     amplitude (snd (FMSynth_process dual_voice))
       * fst (ADSREnvelope_process (envelope (snd (FMSynth_process dual_voice))))
       * sin (phase (op1 (snd (FMSynth_process dual_voice)))) \<and>
   fst (FMSynth_process (snd (FMSynth_process dual_voice))) \<noteq>
     amplitude (snd (FMSynth_process dual_voice))
       * currentLevel (envelope (snd (FMSynth_process dual_voice)))
       * sin (phase (op1 (snd (FMSynth_process dual_voice))))"
proof -
  let ?s = "snd (FMSynth_process dual_voice)"
  let ?p = "TWO_PI * 440 / 44100"
  note f = dual_voice_1
  have act: "ADSREnvelope_isActive (envelope ?s)"
    using f(9) by (simp add: ADSREnvelope_isActive_def)
  have ph3: "phase (op3 ?s) = 3 * ?p" by (simp add: f)
  have lvl: "fst (ADSREnvelope_process (envelope ?s)) = 2 / 441"
    using process_attack_rising [of "envelope ?s"] by (simp add: f)
  have out: "fst (FMSynth_process ?s) = (sin ?p + sin (3 * ?p) * 0.7) * 0.3 * (2 / 441) * 0.7"
    using process_dual_zero_index [OF f(4) f(5) f(6) f(7) act f(3)]
    by (simp only: f(1) ph3 f(8) lvl)
  have "0 < ?p" "3 * ?p \<le> 1" by (simp_all add: TWO_PI_def)
  then have ne: "(sin ?p + sin (3 * ?p) * 0.7) * 0.7 \<noteq> sin ?p"
    and ne2: "(sin ?p + sin (3 * ?p) * 0.7) * 0.7 * 2 \<noteq> sin ?p"
    by (rule dual_mix_differs)+
  have after: "fst (FMSynth_process ?s) \<noteq>
      amplitude ?s * fst (ADSREnvelope_process (envelope ?s)) * sin (phase (op1 ?s))"
    unfolding out lvl f(1) f(8) using ne by simp
  have before: "fst (FMSynth_process ?s) \<noteq>
      amplitude ?s * currentLevel (envelope ?s) * sin (phase (op1 ?s))"
    unfolding out f(10) f(1) f(8) using ne2 by simp
  show ?thesis
    by (intro conjI f(4) f(5) f(6) f(7) act f(3) after before)
qed

section \<open>The voice pool\<close>

lemma scan_Some:
  "scan P vs i = Some j \<Longrightarrow>
   i \<le> j \<and> j < NUM_VOICES \<and> P (vs ! j) \<and> (\<forall>k. i \<le> k \<and> k < j \<longrightarrow> \<not> P (vs ! k))"
proof (induction P vs i rule: scan.induct)
  case (1 P vs i)
  show ?case
  proof (cases "i < NUM_VOICES \<and> \<not> P (vs ! i)")
    case True
    with "1.prems" have "scan P vs (Suc i) = Some j" by (simp add: scan.simps [of P vs i])
    with "1.IH" True have "Suc i \<le> j \<and> j < NUM_VOICES \<and> P (vs ! j) \<and>
        (\<forall>k. Suc i \<le> k \<and> k < j \<longrightarrow> \<not> P (vs ! k))" by simp
    then have j: "Suc i \<le> j" "j < NUM_VOICES" "P (vs ! j)"
      and below: "\<And>k. Suc i \<le> k \<Longrightarrow> k < j \<Longrightarrow> \<not> P (vs ! k)"
      by simp_all
    have "\<not> P (vs ! k)" if "i \<le> k" "k < j" for k
    proof (cases "k = i")
      case True
      with \<open>i < NUM_VOICES \<and> \<not> P (vs ! i)\<close> show ?thesis by simp
    next
      case False
      with that have "Suc i \<le> k" by simp
      with below that show ?thesis by simp
    qed
    with j show ?thesis by simp
  next
    case False
    with "1.prems" show ?thesis by (auto simp add: scan.simps [of P vs i] split: if_splits)
  qed
qed

lemma scan_None:
  "scan P vs i = None \<Longrightarrow> i \<le> k \<Longrightarrow> k < NUM_VOICES \<Longrightarrow> \<not> P (vs ! k)"
proof (induction P vs i rule: scan.induct)
  case (1 P vs i)
  from "1.prems" have i: "i < NUM_VOICES" by simp
  with "1.prems" have nP: "\<not> P (vs ! i)" and rest: "scan P vs (Suc i) = None"
    by (simp_all add: scan.simps [of P vs i] split: if_splits)
  show ?case
  proof (cases "k = i")
    case True
    with nP show ?thesis by simp
  next
    case False
    with "1.prems" have "Suc i \<le> k" by simp
    with "1.IH" [OF i nP rest] "1.prems" show ?thesis by simp
  qed
qed

lemma findVoiceWithNote_found:
  "0 \<le> findVoiceWithNote vs n \<Longrightarrow>
   nat (findVoiceWithNote vs n) < NUM_VOICES \<and> note (vs ! nat (findVoiceWithNote vs n)) = n"
  by (auto simp: findVoiceWithNote_def split: option.splits dest: scan_Some)

lemma findVoiceWithNote_iff:
  "0 \<le> findVoiceWithNote vs n \<longleftrightarrow> (\<exists>i<NUM_VOICES. note (vs ! i) = n)"
proof
  assume "0 \<le> findVoiceWithNote vs n"
  from findVoiceWithNote_found [OF this] show "\<exists>i<NUM_VOICES. note (vs ! i) = n" by blast
next
  assume "\<exists>i<NUM_VOICES. note (vs ! i) = n"
  then obtain i where i: "i < NUM_VOICES" "note (vs ! i) = n" by blast
  show "0 \<le> findVoiceWithNote vs n"
  proof (cases "scan (\<lambda>v. note v = n) vs 0")
    case None
    from scan_None [OF None, of i] i show ?thesis by simp
  next
    case (Some j)
    then show ?thesis by (simp add: findVoiceWithNote_def)
  qed
qed

lemma findFreeVoice_range: "0 \<le> findFreeVoice vs \<and> nat (findFreeVoice vs) < NUM_VOICES"
  by (auto simp: findFreeVoice_def NUM_VOICES_def split: option.splits dest!: scan_Some)

lemma pool_inv_voiceNoteOn: "pool_inv vs \<Longrightarrow> pool_inv (voiceNoteOn vs n freq)"
proof (cases "0 \<le> findVoiceWithNote vs n")
  case True
  assume "pool_inv vs"
  with True show ?thesis by (simp add: voiceNoteOn_def)
next
  case False
  assume inv: "pool_inv vs"
  let ?v = "nat (findFreeVoice vs)"
  from False have absent: "\<forall>i<NUM_VOICES. note (vs ! i) \<noteq> n"
    by (simp add: findVoiceWithNote_iff)
  have v: "?v < NUM_VOICES" using findFreeVoice_range by simp
  from inv have len: "length vs = NUM_VOICES" by (simp add: pool_inv_def)
  from False have eq: "voiceNoteOn vs n freq =
      vs[?v := (vs ! ?v)\<lparr>synth := FMSynth_noteOn (synth (vs ! ?v)) freq, note := n\<rparr>]"
    by (simp add: voiceNoteOn_def Let_def)
  show ?thesis
    unfolding eq pool_inv_def using inv absent v len
    by (auto simp: pool_inv_def nth_list_update)
qed

lemma pool_inv_voiceNoteOff: "pool_inv vs \<Longrightarrow> pool_inv (voiceNoteOff vs n)"
proof (cases "0 \<le> findVoiceWithNote vs n")
  case False
  assume "pool_inv vs"
  with False show ?thesis by (simp add: voiceNoteOff_def)
next
  case True
  assume inv: "pool_inv vs"
  let ?v = "nat (findVoiceWithNote vs n)"
  have v: "?v < NUM_VOICES" using findVoiceWithNote_found [OF True] by simp
  from inv have len: "length vs = NUM_VOICES" by (simp add: pool_inv_def)
  from True have eq: "voiceNoteOff vs n =
      vs[?v := (vs ! ?v)\<lparr>synth := FMSynth_noteOff (synth (vs ! ?v)), note := -1\<rparr>]"
    by (simp add: voiceNoteOff_def Let_def)
  show ?thesis
    unfolding eq pool_inv_def using inv v len
    by (auto simp: pool_inv_def nth_list_update)
qed

lemma pool_inv_frame: "pool_inv vs \<Longrightarrow> pool_inv (voices_frame vs)"
  by (simp add: pool_inv_def voices_frame_def)

lemma pool_inv_init: "pool_inv (voices_init ri0)"
  by (simp add: pool_inv_def voices_init_def)

lemma pool_inv_step: "pool_inv vs \<Longrightarrow> pool_inv (pool_step vs ev)"
  by (cases ev) (simp_all add: pool_inv_voiceNoteOn pool_inv_voiceNoteOff pool_inv_frame)

lemma pool_inv_run: "pool_inv vs \<Longrightarrow> pool_inv (pool_run vs evs)"
  by (induction evs arbitrary: vs) (simp_all add: pool_inv_step)

lemma voiceNoteOn_assigned:
  "\<exists>i<NUM_VOICES. note (vs ! i) = n \<Longrightarrow> voiceNoteOn vs n freq = vs"
  by (simp add: voiceNoteOn_def findVoiceWithNote_iff)

lemma new_voice_idle: "\<not> FMSynth_isActive (FMSynth_new f sr ri0)"
  by (simp add: FMSynth_isActive_def ADSREnvelope_isActive_def FMSynth_new_def
      ADSREnvelope_new_def updateIncrements_def)

lemma released_voice_active:
  "FMSynth_isActive (FMSynth_noteOff (FMSynth_noteOn s f))"
  by (simp add: FMSynth_isActive_def ADSREnvelope_isActive_def FMSynth_noteOff_def
      FMSynth_noteOn_def ADSREnvelope_noteOn_def ADSREnvelope_noteOff_def)

lemma init_list: "voices_init ri0 =
     [\<lparr>synth = FMSynth_new 440 SAMPLE_RATE ri0, note = -1\<rparr>,
      \<lparr>synth = FMSynth_new 440 SAMPLE_RATE ri0, note = -1\<rparr>,
      \<lparr>synth = FMSynth_new 440 SAMPLE_RATE ri0, note = -1\<rparr>,
      \<lparr>synth = FMSynth_new 440 SAMPLE_RATE ri0, note = -1\<rparr>,
      \<lparr>synth = FMSynth_new 440 SAMPLE_RATE ri0, note = -1\<rparr>,
      \<lparr>synth = FMSynth_new 440 SAMPLE_RATE ri0, note = -1\<rparr>]"
  by (simp add: voices_init_def NUM_VOICES_def eval_nat_numeral)

lemma scan_unroll:
  "scan P vs 0 =
     (if P (vs ! 0) then Some 0 else if P (vs ! 1) then Some 1 else if P (vs ! 2) then Some 2
      else if P (vs ! 3) then Some 3 else if P (vs ! 4) then Some 4
      else if P (vs ! 5) then Some 5 else None)"
proof -
  have n: "NUM_VOICES = 6" by (simp add: NUM_VOICES_def)
  have s6: "scan P vs 6 = None" by (subst scan.simps) (simp add: n)
  have s5: "scan P vs 5 = (if P (vs ! 5) then Some 5 else None)"
    by (subst scan.simps) (simp add: n s6)
  have s4: "scan P vs 4 = (if P (vs ! 4) then Some 4 else scan P vs 5)"
    by (subst scan.simps) (simp add: n)
  have s3: "scan P vs 3 = (if P (vs ! 3) then Some 3 else scan P vs 4)"
    by (subst scan.simps) (simp add: n)
  have s2: "scan P vs 2 = (if P (vs ! 2) then Some 2 else scan P vs 3)"
    by (subst scan.simps) (simp add: n)
  have s1: "scan P vs (Suc 0) = (if P (vs ! Suc 0) then Some (Suc 0) else scan P vs 2)"
    by (subst scan.simps) (simp add: n numeral_2_eq_2)
  have s0: "scan P vs 0 = (if P (vs ! 0) then Some 0 else scan P vs (Suc 0))"
    by (subst scan.simps) (simp add: n)
  show ?thesis by (simp add: s0 s1 s2 s3 s4 s5)
qed

lemma pool_two_notes:
  "pool_run (voices_init 0) [NoteOn 60 261, NoteOn 64 329] =
     [\<lparr>synth = FMSynth_noteOn (FMSynth_new 440 SAMPLE_RATE 0) 261, note = 60\<rparr>,
      \<lparr>synth = FMSynth_noteOn (FMSynth_new 440 SAMPLE_RATE 0) 329, note = 64\<rparr>,
      \<lparr>synth = FMSynth_new 440 SAMPLE_RATE 0, note = -1\<rparr>,
      \<lparr>synth = FMSynth_new 440 SAMPLE_RATE 0, note = -1\<rparr>,
      \<lparr>synth = FMSynth_new 440 SAMPLE_RATE 0, note = -1\<rparr>,
      \<lparr>synth = FMSynth_new 440 SAMPLE_RATE 0, note = -1\<rparr>]"
  unfolding init_list
  by (simp add: voiceNoteOn_def findVoiceWithNote_def findFreeVoice_def
      scan_unroll new_voice_idle Let_def)

lemma pool_released_note:
  "pool_run (voices_init 0) [NoteOn 60 261, NoteOff 60] =
     [\<lparr>synth = FMSynth_noteOff (FMSynth_noteOn (FMSynth_new 440 SAMPLE_RATE 0) 261), note = -1\<rparr>,
      \<lparr>synth = FMSynth_new 440 SAMPLE_RATE 0, note = -1\<rparr>,
      \<lparr>synth = FMSynth_new 440 SAMPLE_RATE 0, note = -1\<rparr>,
      \<lparr>synth = FMSynth_new 440 SAMPLE_RATE 0, note = -1\<rparr>,
      \<lparr>synth = FMSynth_new 440 SAMPLE_RATE 0, note = -1\<rparr>,
      \<lparr>synth = FMSynth_new 440 SAMPLE_RATE 0, note = -1\<rparr>]"
  unfolding init_list
  by (simp add: voiceNoteOn_def voiceNoteOff_def findVoiceWithNote_def findFreeVoice_def
      scan_unroll new_voice_idle Let_def)

lemma all_less_6: "(\<forall>i<6::nat. P i) \<longleftrightarrow> P 0 \<and> P 1 \<and> P 2 \<and> P 3 \<and> P 4 \<and> P 5"
proof -
  have "i < 6 \<longleftrightarrow> i = 0 \<or> i = 1 \<or> i = 2 \<or> i = 3 \<or> i = 4 \<or> i = 5" for i :: nat
    by arith
  then show ?thesis by auto
qed

text \<open>
  Claim C6. The pool starts as \<open>main\<close> builds it and is driven by any sequence \<open>evs\<close> of
  \<open>voiceNoteOn\<close>, \<open>voiceNoteOff\<close> and audio frames. In the state reached, the pool still
  has \<open>NUM_VOICES\<close> slots, no two different slots carry the same note unless that note is
  the sentinel \<open>-1\<close>, and a \<open>voiceNoteOn\<close> for a note some slot carries returns the pool
  unchanged: no voice's \<open>noteOn\<close> runs and every envelope is as it was.
\<close>

theorem pool_notes_unique:
  "length (pool_run (voices_init ri0) evs) = NUM_VOICES \<and>
   (\<forall>i<NUM_VOICES. \<forall>j<NUM_VOICES.
      i \<noteq> j \<and> note (pool_run (voices_init ri0) evs ! i) \<noteq> -1 \<longrightarrow>
      note (pool_run (voices_init ri0) evs ! i) \<noteq> note (pool_run (voices_init ri0) evs ! j)) \<and>
   (\<forall>n freq. (\<exists>i<NUM_VOICES. note (pool_run (voices_init ri0) evs ! i) = n) \<longrightarrow>
      voiceNoteOn (pool_run (voices_init ri0) evs) n freq = pool_run (voices_init ri0) evs)"
proof -
  have "pool_inv (pool_run (voices_init ri0) evs)"
    by (intro pool_inv_run pool_inv_init)
  then show ?thesis
    unfolding pool_inv_def using voiceNoteOn_assigned by blast
qed

theorem pool_notes_unique_witness:
  "note (pool_run (voices_init 0) [NoteOn 60 261, NoteOn 64 329] ! 0) = 60 \<and>
   note (pool_run (voices_init 0) [NoteOn 60 261, NoteOn 64 329] ! 1) = 64 \<and>
   note (pool_run (voices_init 0) [NoteOn 60 261, NoteOn 64 329] ! 0) \<noteq>
     note (pool_run (voices_init 0) [NoteOn 60 261, NoteOn 64 329] ! 1) \<and>
   voiceNoteOn (pool_run (voices_init 0) [NoteOn 60 261, NoteOn 64 329]) 60 500 =
     pool_run (voices_init 0) [NoteOn 60 261, NoteOn 64 329]"
proof -
  let ?vs = "pool_run (voices_init 0) [NoteOn 60 261, NoteOn 64 329]"
  have n0: "note (?vs ! 0) = 60" and n1: "note (?vs ! 1) = 64"
    unfolding pool_two_notes by simp_all
  have six: "(0::nat) < NUM_VOICES" "(1::nat) < NUM_VOICES" by (simp_all add: NUM_VOICES_def)
  note u = pool_notes_unique [of 0 "[NoteOn 60 261, NoteOn 64 329]"]
  from u six n0 have d: "note (?vs ! 0) \<noteq> note (?vs ! 1)" by force
  from n0 six have "\<exists>i<NUM_VOICES. note (?vs ! i) = 60" by blast
  with u have "voiceNoteOn ?vs 60 500 = ?vs" by blast
  with n0 n1 d show ?thesis by blast
qed

lemma findFreeVoice_choice:
  "(if \<exists>i<NUM_VOICES. note (vs ! i) = -1 \<and> \<not> FMSynth_isActive (synth (vs ! i))
      then note (vs ! nat (findFreeVoice vs)) = -1 \<and>
           \<not> FMSynth_isActive (synth (vs ! nat (findFreeVoice vs))) \<and>
           (\<forall>k<nat (findFreeVoice vs).
              \<not> (note (vs ! k) = -1 \<and> \<not> FMSynth_isActive (synth (vs ! k))))
    else if \<exists>i<NUM_VOICES. note (vs ! i) = -1
      then note (vs ! nat (findFreeVoice vs)) = -1 \<and>
           (\<forall>k<nat (findFreeVoice vs). note (vs ! k) \<noteq> -1)
    else nat (findFreeVoice vs) = 0)"
proof (cases "scan (\<lambda>v. note v = -1 \<and> \<not> FMSynth_isActive (synth v)) vs 0")
  case (Some j)
  from scan_Some [OF Some] have "\<exists>i<NUM_VOICES. note (vs ! i) = -1 \<and> \<not> FMSynth_isActive (synth (vs ! i))"
    by blast
  moreover from Some have "nat (findFreeVoice vs) = j" by (simp add: findFreeVoice_def)
  ultimately show ?thesis using scan_Some [OF Some] by simp
next
  case None
  then have no_idle: "\<not> (\<exists>i<NUM_VOICES. note (vs ! i) = -1 \<and> \<not> FMSynth_isActive (synth (vs ! i)))"
    using scan_None [OF None] by auto
  show ?thesis
  proof (cases "scan (\<lambda>v. note v = -1) vs 0")
    case (Some j)
    from scan_Some [OF Some] have "\<exists>i<NUM_VOICES. note (vs ! i) = -1" by blast
    moreover from Some None have "nat (findFreeVoice vs) = j" by (simp add: findFreeVoice_def)
    ultimately show ?thesis using scan_Some [OF Some] no_idle by simp
  next
    case None2: None
    then have "\<not> (\<exists>i<NUM_VOICES. note (vs ! i) = -1)"
      using scan_None [OF None2] by auto
    moreover from None None2 have "findFreeVoice vs = 0" by (simp add: findFreeVoice_def)
    ultimately show ?thesis using no_idle by auto
  qed
qed

text \<open>
  Claim C7. When no slot carries the note \<open>n\<close>, \<open>voiceNoteOn\<close> picks one slot \<open>v\<close>, sets its
  note to \<open>n\<close> and calls its voice's \<open>noteOn\<close>, leaving the other slots alone. The slot is
  (a) the lowest slot that is unassigned with an inactive envelope, if there is one;
  (b) otherwise the lowest unassigned slot, if there is one; (c) otherwise slot 0.
\<close>

theorem voiceNoteOn_selection:
  assumes "length vs = NUM_VOICES"
    and "\<forall>i<NUM_VOICES. note (vs ! i) \<noteq> n"
  shows "\<exists>v<NUM_VOICES.
     voiceNoteOn vs n freq =
       vs[v := (vs ! v)\<lparr>synth := FMSynth_noteOn (synth (vs ! v)) freq, note := n\<rparr>] \<and>
     (if \<exists>i<NUM_VOICES. note (vs ! i) = -1 \<and> \<not> FMSynth_isActive (synth (vs ! i))
        then note (vs ! v) = -1 \<and> \<not> FMSynth_isActive (synth (vs ! v)) \<and>
             (\<forall>k<v. \<not> (note (vs ! k) = -1 \<and> \<not> FMSynth_isActive (synth (vs ! k))))
      else if \<exists>i<NUM_VOICES. note (vs ! i) = -1
        then note (vs ! v) = -1 \<and> (\<forall>k<v. note (vs ! k) \<noteq> -1)
      else v = 0)"
proof -
  let ?v = "nat (findFreeVoice vs)"
  from assms(2) have "\<not> 0 \<le> findVoiceWithNote vs n"
    by (simp add: findVoiceWithNote_iff)
  then have eq: "voiceNoteOn vs n freq =
      vs[?v := (vs ! ?v)\<lparr>synth := FMSynth_noteOn (synth (vs ! ?v)) freq, note := n\<rparr>]"
    by (simp add: voiceNoteOn_def Let_def)
  have v: "?v < NUM_VOICES" using findFreeVoice_range by simp
  show ?thesis
  proof (rule exI [of _ ?v], intro conjI)
    show "?v < NUM_VOICES" by (rule v)
    show "voiceNoteOn vs n freq =
      vs[?v := (vs ! ?v)\<lparr>synth := FMSynth_noteOn (synth (vs ! ?v)) freq, note := n\<rparr>]"
      by (rule eq)
    show "if \<exists>i<NUM_VOICES. note (vs ! i) = -1 \<and> \<not> FMSynth_isActive (synth (vs ! i))
        then note (vs ! ?v) = -1 \<and> \<not> FMSynth_isActive (synth (vs ! ?v)) \<and>
             (\<forall>k<?v. \<not> (note (vs ! k) = -1 \<and> \<not> FMSynth_isActive (synth (vs ! k))))
      else if \<exists>i<NUM_VOICES. note (vs ! i) = -1
        then note (vs ! ?v) = -1 \<and> (\<forall>k<?v. note (vs ! k) \<noteq> -1)
      else ?v = 0"
      by (rule findFreeVoice_choice)
  qed
qed

theorem voiceNoteOn_selection_witness:
  "length (pool_run (voices_init 0) [NoteOn 60 261, NoteOff 60]) = NUM_VOICES \<and>
   map note (pool_run (voices_init 0) [NoteOn 60 261, NoteOff 60]) = [-1, -1, -1, -1, -1, -1] \<and>
   FMSynth_isActive (synth (pool_run (voices_init 0) [NoteOn 60 261, NoteOff 60] ! 0)) \<and>
   voiceNoteOn (pool_run (voices_init 0) [NoteOn 60 261, NoteOff 60]) 62 293 =
     (pool_run (voices_init 0) [NoteOn 60 261, NoteOff 60])
       [1 := \<lparr>synth = FMSynth_noteOn (FMSynth_new 440 SAMPLE_RATE 0) 293, note = 62\<rparr>]"
proof -
  let ?vs = "pool_run (voices_init 0) [NoteOn 60 261, NoteOff 60]"
  let ?free = "\<lambda>k. note (?vs ! k) = -1 \<and> \<not> FMSynth_isActive (synth (?vs ! k))"
  have len: "length ?vs = NUM_VOICES"
    unfolding pool_released_note by (simp add: NUM_VOICES_def)
  have absent: "\<forall>i<NUM_VOICES. note (?vs ! i) \<noteq> 62"
    unfolding pool_released_note by (simp add: NUM_VOICES_def all_less_6)
  have s0: "note (?vs ! 0) = -1" "FMSynth_isActive (synth (?vs ! 0))"
    unfolding pool_released_note by (simp_all add: released_voice_active)
  have s1: "?vs ! 1 = \<lparr>synth = FMSynth_new 440 SAMPLE_RATE 0, note = -1\<rparr>"
    unfolding pool_released_note by simp
  then have f1: "?free 1" by (simp add: new_voice_idle)
  have one: "(1::nat) < NUM_VOICES" by (simp add: NUM_VOICES_def)
  from voiceNoteOn_selection [OF len absent, of 293]
  obtain v where sel: "v < NUM_VOICES \<and>
     voiceNoteOn ?vs 62 293 =
       ?vs[v := (?vs ! v)\<lparr>synth := FMSynth_noteOn (synth (?vs ! v)) 293, note := 62\<rparr>] \<and>
     (if \<exists>i<NUM_VOICES. ?free i
        then note (?vs ! v) = -1 \<and> \<not> FMSynth_isActive (synth (?vs ! v)) \<and> (\<forall>k<v. \<not> ?free k)
      else if \<exists>i<NUM_VOICES. note (?vs ! i) = -1
        then note (?vs ! v) = -1 \<and> (\<forall>k<v. note (?vs ! k) \<noteq> -1)
      else v = 0)" ..
  then have eq: "voiceNoteOn ?vs 62 293 =
       ?vs[v := (?vs ! v)\<lparr>synth := FMSynth_noteOn (synth (?vs ! v)) 293, note := 62\<rparr>]"
    by (rule conjunct1 [OF conjunct2])
  from f1 one have ex: "\<exists>i<NUM_VOICES. ?free i" by blast
  from sel have "if \<exists>i<NUM_VOICES. ?free i
        then note (?vs ! v) = -1 \<and> \<not> FMSynth_isActive (synth (?vs ! v)) \<and> (\<forall>k<v. \<not> ?free k)
      else if \<exists>i<NUM_VOICES. note (?vs ! i) = -1
        then note (?vs ! v) = -1 \<and> (\<forall>k<v. note (?vs ! k) \<noteq> -1)
      else v = 0"
    by (rule conjunct2 [OF conjunct2])
  then have fv: "note (?vs ! v) = -1 \<and> \<not> FMSynth_isActive (synth (?vs ! v)) \<and>
      (\<forall>k<v. \<not> ?free k)"
    unfolding if_P [OF ex] .
  from fv s0 have "v \<noteq> 0" by (cases "v = 0") simp_all
  moreover have "\<not> 1 < v"
  proof
    assume "1 < v"
    with fv have "\<not> ?free 1" by blast
    with f1 show False by blast
  qed
  ultimately have "v = 1" by simp
  with eq s1 have "voiceNoteOn ?vs 62 293 =
     ?vs[1 := \<lparr>synth = FMSynth_noteOn (FMSynth_new 440 SAMPLE_RATE 0) 293, note = 62\<rparr>]"
    by simp
  moreover have "map note ?vs = [-1, -1, -1, -1, -1, -1]"
    unfolding pool_released_note by simp
  ultimately show ?thesis using len s0 by (intro conjI)
qed

section \<open>The end-to-end scenario\<close>

lemma wrapped_phase_step:
  assumes "0 \<le> f" "f < SAMPLE_RATE"
  shows "(if wrapped_phase f n + TWO_PI * f / SAMPLE_RATE \<ge> TWO_PI
          then wrapped_phase f n + TWO_PI * f / SAMPLE_RATE - TWO_PI
          else wrapped_phase f n + TWO_PI * f / SAMPLE_RATE) = wrapped_phase f (Suc n)"
proof -
  let ?x = "real n * f / SAMPLE_RATE"
  let ?d = "f / SAMPLE_RATE"
  have sr: "0 < SAMPLE_RATE" by (simp add: SAMPLE_RATE_def)
  from assms sr have d: "0 \<le> ?d" "?d < 1" by simp_all
  then have fd: "frac ?d = ?d" by (simp add: frac_eq)
  have split: "real (Suc n) * f / SAMPLE_RATE = ?x + ?d"
    by (simp add: add_divide_distrib algebra_simps)
  have next_frac: "frac (real (Suc n) * f / SAMPLE_RATE) =
      (if frac ?x + ?d < 1 then frac ?x + ?d else frac ?x + ?d - 1)"
    unfolding split by (simp add: frac_add fd)
  have sum: "wrapped_phase f n + TWO_PI * f / SAMPLE_RATE = TWO_PI * (frac ?x + ?d)"
    by (simp add: wrapped_phase_def algebra_simps)
  have ge: "TWO_PI * (frac ?x + ?d) \<ge> TWO_PI \<longleftrightarrow> \<not> frac ?x + ?d < 1"
    using TWO_PI_pos by (simp add: not_less)
  show ?thesis
    unfolding sum ge wrapped_phase_def [of f "Suc n"] next_frac
    by (simp add: algebra_simps)
qed

lemma wrapped_phase_0: "wrapped_phase f 0 = 0"
  by (simp add: wrapped_phase_def)

lemma Oscillator_process_wrapped:
  assumes "phase osc = wrapped_phase f n" "phaseIncrement osc = TWO_PI * f / SAMPLE_RATE"
    and "0 \<le> f" "f < SAMPLE_RATE"
  shows "phase (snd (Oscillator_process osc m)) = wrapped_phase f (Suc n)"
  using wrapped_phase_step [OF assms(3,4), of n] assms(1,2)
  by (simp add: Oscillator_process_def Let_def)

lemma scenario_envelope_step:
  assumes "attackIncrement e = 10 / 441" "decayIncrement e = 0" "sustainLevel e = 1"
    and "currentLevel e = scenario_level n"
    and "state e = (if n < 45 then ENV_ATTACK else if n = 45 then ENV_DECAY else ENV_SUSTAIN)"
  shows "fst (ADSREnvelope_process e) = scenario_level (Suc n)"
    and "currentLevel (snd (ADSREnvelope_process e)) = scenario_level (Suc n)"
    and "state (snd (ADSREnvelope_process e)) =
       (if Suc n < 45 then ENV_ATTACK else if Suc n = 45 then ENV_DECAY else ENV_SUSTAIN)"
proof -
  consider (rise) "n < 44" | (top) "n = 44" | (decay) "n = 45" | (hold) "45 < n" by linarith
  then have "currentLevel (snd (ADSREnvelope_process e)) = scenario_level (Suc n) \<and>
      state (snd (ADSREnvelope_process e)) =
       (if Suc n < 45 then ENV_ATTACK else if Suc n = 45 then ENV_DECAY else ENV_SUSTAIN)"
  proof cases
    case rise
    then have "real n + 1 \<le> 44" by simp
    then have lt: "(real n + 1) * 10 / 441 < 1" by simp
    then have "real n * 10 / 441 < 1" by simp
    with rise lt assms show ?thesis
      by (simp add: ADSREnvelope_process_def scenario_level_def Let_def algebra_simps)
  next
    case top
    with assms show ?thesis
      by (simp add: ADSREnvelope_process_def scenario_level_def Let_def)
  next
    case decay
    with assms show ?thesis
      by (simp add: ADSREnvelope_process_def scenario_level_def Let_def)
  next
    case hold
    then have "45 \<le> real n" by simp
    then have "1 \<le> (real n + 1) * 10 / 441" by simp
    with hold assms show ?thesis
      by (simp add: ADSREnvelope_process_def scenario_level_def Let_def algebra_simps)
  qed
  then show "currentLevel (snd (ADSREnvelope_process e)) = scenario_level (Suc n)"
    and "state (snd (ADSREnvelope_process e)) =
       (if Suc n < 45 then ENV_ATTACK else if Suc n = 45 then ENV_DECAY else ENV_SUSTAIN)"
    and "fst (ADSREnvelope_process e) = scenario_level (Suc n)"
    by (simp_all add: ADSREnvelope_process_def Let_def)
qed

lemma process_stack:
  assumes "algorithm s = ALG_STACK" "ADSREnvelope_isActive (envelope s)"
  shows "fst (FMSynth_process s) =
      sin (phase (op1 s) +
           (index2 s * sin (phase (op2 s) +
              index3 s * sin (phase (op3 s) + index4 s * sin (phase (op4 s)))) +
            index1 s * prevSample1 s))
        * amplitude s * fst (ADSREnvelope_process (envelope s))"
    and "op1 (snd (FMSynth_process s)) =
      snd (Oscillator_process (op1 s)
        (index2 s * sin (phase (op2 s) +
              index3 s * sin (phase (op3 s) + index4 s * sin (phase (op4 s)))) +
         index1 s * prevSample1 s))"
    and "op2 (snd (FMSynth_process s)) =
      snd (Oscillator_process (op2 s)
        (index3 s * sin (phase (op3 s) + index4 s * sin (phase (op4 s)))))"
    and "op3 (snd (FMSynth_process s)) =
      snd (Oscillator_process (op3 s) (index4 s * sin (phase (op4 s))))"
    and "op4 (snd (FMSynth_process s)) = snd (Oscillator_process (op4 s) 0)"
    and "envelope (snd (FMSynth_process s)) = snd (ADSREnvelope_process (envelope s))"
    and "algorithm (snd (FMSynth_process s)) = algorithm s"
    and "amplitude (snd (FMSynth_process s)) = amplitude s"
    and "index1 (snd (FMSynth_process s)) = index1 s"
    and "index2 (snd (FMSynth_process s)) = index2 s"
    and "index3 (snd (FMSynth_process s)) = index3 s"
    and "index4 (snd (FMSynth_process s)) = index4 s"
  using assms
  by (simp_all add: FMSynth_process_def Oscillator_process_def Let_def split: prod.split)

lemma scenario_active:
  "scenario_inv i3 i4 n s \<Longrightarrow> ADSREnvelope_isActive (envelope s)"
  by (simp add: scenario_inv_def ADSREnvelope_isActive_def)

lemma scenario_sample:
  assumes inv: "scenario_inv i3 i4 n s"
  shows "fst (FMSynth_process s) =
     0.3 * scenario_level (Suc n) *
       sin (wrapped_phase 440 n +
            3 * sin (wrapped_phase 880 n +
                     i3 * sin (wrapped_phase 1320 n + i4 * sin (wrapped_phase 1760 n))))"
proof -
  from inv have alg: "algorithm s = ALG_STACK" by (simp add: scenario_inv_def)
  from inv have env: "fst (ADSREnvelope_process (envelope s)) = scenario_level (Suc n)"
    by (intro scenario_envelope_step) (simp_all add: scenario_inv_def)
  from inv have f: "amplitude s = 0.3" "index1 s = 0" "index2 s = 3" "index3 s = i3"
    "index4 s = i4" "phase (op1 s) = wrapped_phase 440 n" "phase (op2 s) = wrapped_phase 880 n"
    "phase (op3 s) = wrapped_phase 1320 n" "phase (op4 s) = wrapped_phase 1760 n"
    by (simp_all add: scenario_inv_def)
  show ?thesis
    unfolding process_stack(1) [OF alg scenario_active [OF inv]] env f by simp
qed

lemma scenario_step:
  assumes inv: "scenario_inv i3 i4 n s"
  shows "scenario_inv i3 i4 (Suc n) (snd (FMSynth_process s))"
proof -
  from inv have alg: "algorithm s = ALG_STACK" by (simp add: scenario_inv_def)
  note ps = process_stack [OF alg scenario_active [OF inv]]
  have sr: "(0::real) \<le> 440" "(440::real) < SAMPLE_RATE" "(0::real) \<le> 880" "(880::real) < SAMPLE_RATE"
    "(0::real) \<le> 1320" "(1320::real) < SAMPLE_RATE" "(0::real) \<le> 1760" "(1760::real) < SAMPLE_RATE"
    by (simp_all add: SAMPLE_RATE_def)
  from inv have p1: "phase (op1 (snd (FMSynth_process s))) = wrapped_phase 440 (Suc n)"
    unfolding ps by (intro Oscillator_process_wrapped sr) (simp_all add: scenario_inv_def)
  from inv have p2: "phase (op2 (snd (FMSynth_process s))) = wrapped_phase 880 (Suc n)"
    unfolding ps by (intro Oscillator_process_wrapped sr) (simp_all add: scenario_inv_def)
  from inv have p3: "phase (op3 (snd (FMSynth_process s))) = wrapped_phase 1320 (Suc n)"
    unfolding ps by (intro Oscillator_process_wrapped sr) (simp_all add: scenario_inv_def)
  from inv have p4: "phase (op4 (snd (FMSynth_process s))) = wrapped_phase 1760 (Suc n)"
    unfolding ps by (intro Oscillator_process_wrapped sr) (simp_all add: scenario_inv_def)
  from inv have e: "currentLevel (envelope (snd (FMSynth_process s))) = scenario_level (Suc n)"
    "state (envelope (snd (FMSynth_process s))) =
       (if Suc n < 45 then ENV_ATTACK else if Suc n = 45 then ENV_DECAY else ENV_SUSTAIN)"
    unfolding ps by (intro scenario_envelope_step; simp add: scenario_inv_def)+
  from inv show ?thesis
    unfolding scenario_inv_def [of i3 i4 "Suc n"] p1 p2 p3 p4 e
    by (simp add: ps Oscillator_process_fields process_params scenario_inv_def)
qed

lemma scenario_init: "scenario_inv i3 i4 0 (scenario_voice ri0 i3 i4)"
  by (simp add: scenario_inv_def scenario_voice_def FMSynth_noteOn_def setRelease_def
      setSustain_def setDecay_def setAttack_def setAlgorithm_def setIndex4_def setIndex3_def
      setIndex2_def setRatio2_def FMSynth_new_def Let_def
      Oscillator_reset_def Oscillator_setFrequency_def Oscillator_new_def updatePhaseIncrement_def
      ADSREnvelope_noteOn_def ADSREnvelope_setRelease_def ADSREnvelope_setSustain_def
      ADSREnvelope_setDecay_def ADSREnvelope_setAttack_def ADSREnvelope_new_def
      updateIncrements_def wrapped_phase_0 scenario_level_def SAMPLE_RATE_def)

lemma scenario_run:
  "scenario_inv i3 i4 k s \<Longrightarrow> scenario_inv i3 i4 (k + n) (FMSynth_run n s)"
proof (induction n arbitrary: k s)
  case 0
  then show ?case by simp
next
  case (Suc n)
  from Suc.IH [OF scenario_step [OF Suc.prems]] show ?case by simp
qed

text \<open>
  Claim C2, as the code has it. In the scenario the first \<open>process()\<close> output is 0, and
  output number \<open>n\<close> (counted from 0) is
  \<open>amplitude \<times> min 1 ((n + 1) \<sqdot> 10/441) \<times> sin (\<phi>\<^sub>1 + 3 sin (\<phi>\<^sub>2 + index3 \<sqdot> sin (\<phi>\<^sub>3 + index4 \<sqdot> sin \<phi>\<^sub>4)))\<close>
  with \<open>amplitude = 0.3\<close> and \<open>\<phi>\<^sub>k = TWO_PI \<sqdot> frac (n \<sqdot> 440 k / 44100)\<close>, for every \<open>n\<close>. The
  envelope is not instant: the attack time 0 is clamped to 1 ms, so the level climbs by
  10/441 per sample and reaches 1 at the 45th output. With \<open>index3 = 0\<close> the sine is the
  two-operator \<open>sin (\<phi>\<^sub>1 + 3 sin \<phi>\<^sub>2)\<close>.
\<close>

theorem scenario_samples:
  "FMSynth_sample 0 (scenario_voice ri0 i3 i4) = 0 \<and>
   FMSynth_sample n (scenario_voice ri0 i3 i4) =
     0.3 * min 1 (real (Suc n) * 10 / 441) *
       sin (TWO_PI * frac (real n * 440 / SAMPLE_RATE) +
            3 * sin (TWO_PI * frac (real n * 880 / SAMPLE_RATE) +
                     i3 * sin (TWO_PI * frac (real n * 1320 / SAMPLE_RATE) +
                               i4 * sin (TWO_PI * frac (real n * 1760 / SAMPLE_RATE)))))"
proof -
  have "scenario_inv i3 i4 (0 + k) (FMSynth_run k (scenario_voice ri0 i3 i4))" for k
    by (intro scenario_run scenario_init)
  then have inv: "scenario_inv i3 i4 k (FMSynth_run k (scenario_voice ri0 i3 i4))" for k
    by simp
  have "FMSynth_sample 0 (scenario_voice ri0 i3 i4) = 0"
    unfolding FMSynth_sample_def scenario_sample [OF inv [of 0]]
    by (simp add: wrapped_phase_def)
  moreover have "FMSynth_sample n (scenario_voice ri0 i3 i4) =
     0.3 * min 1 (real (Suc n) * 10 / 441) *
       sin (TWO_PI * frac (real n * 440 / SAMPLE_RATE) +
            3 * sin (TWO_PI * frac (real n * 880 / SAMPLE_RATE) +
                     i3 * sin (TWO_PI * frac (real n * 1320 / SAMPLE_RATE) +
                               i4 * sin (TWO_PI * frac (real n * 1760 / SAMPLE_RATE)))))"
    unfolding FMSynth_sample_def scenario_sample [OF inv [of n]] scenario_level_def wrapped_phase_def
    by (rule refl)
  ultimately show ?thesis by (rule conjI)
qed

lemma sin_lower_bound:
  fixes x :: real
  assumes "0 < x"
  shows "x - x\<^sup>2 / 2 \<le> sin x"
proof -
  from Maclaurin_sin_expansion3 [of 2 x] assms obtain t where
    "sin x = (\<Sum>m<2. sin_coeff m * x ^ m) + (sin (t + 1/2 * real 2 * pi) / fact 2) * x ^ 2"
    by auto
  then have "sin x = x - sin t / 2 * x\<^sup>2"
    by (simp add: sin_coeff_def lessThan_Suc numeral_2_eq_2 )
  moreover have "sin t / 2 * x\<^sup>2 \<le> 1 / 2 * x\<^sup>2"
    by (intro mult_right_mono) simp_all
  ultimately show ?thesis by simp
qed

lemma half_square_mono:
  fixes a b :: real
  assumes "a \<le> b" "b \<le> 1"
  shows "a - a\<^sup>2 / 2 \<le> b - b\<^sup>2 / 2"
proof -
  have "(b - b\<^sup>2 / 2) - (a - a\<^sup>2 / 2) = (b - a) * (1 - (a + b) / 2)"
    by (simp add: power2_eq_square field_simps)
  moreover from assms have "0 \<le> (b - a) * (1 - (a + b) / 2)"
    by (intro mult_nonneg_nonneg) simp_all
  ultimately show ?thesis by simp
qed

lemma ramp_differs:
  fixes p y :: real
  assumes "1 / 26 \<le> p" "p \<le> 1 / 10"
  shows "0.3 * (20 / 441) * sin y \<noteq> 0.3 * sin (p + 3 * sin (2 * p))"
proof -
  let ?t = "p + 3 * sin (2 * p)"
  from assms have p0: "0 < p" by simp
  have "2 * p - 2 * p\<^sup>2 \<le> sin (2 * p)"
    using sin_lower_bound [of "2 * p"] p0 by (simp add: power2_eq_square)
  moreover have "9 / 5 * p \<le> 2 * p - 2 * p\<^sup>2"
  proof -
    have "2 * p - 2 * p\<^sup>2 - 9 / 5 * p = 2 * p * (1 / 10 - p)"
      by (simp add: power2_eq_square algebra_simps)
    moreover from assms p0 have "0 \<le> 2 * p * (1 / 10 - p)"
      by (intro mult_nonneg_nonneg) simp_all
    ultimately show ?thesis by simp
  qed
  ultimately have "9 / 5 * p \<le> sin (2 * p)" by simp
  with assms have lo: "1 / 5 \<le> ?t" by simp
  from p0 have "sin (2 * p) \<le> 2 * p" by (intro sin_x_le_x) simp
  with assms have hi: "?t \<le> 7 / 10" by simp
  have "(1 / 5 - (1 / 5)\<^sup>2 / 2 :: real) \<le> ?t - ?t\<^sup>2 / 2"
    using lo hi by (intro half_square_mono) simp_all
  also have "\<dots> \<le> sin ?t" using lo by (intro sin_lower_bound) simp
  finally have "(1 / 5 - (1 / 5)\<^sup>2 / 2 :: real) \<le> sin ?t" .
  then have "20 / 441 < sin ?t" by (simp add: power2_eq_square)
  moreover have "sin y \<le> 1" by simp
  ultimately have "20 / 441 * sin y < sin ?t" by linarith
  then show ?thesis by simp
qed

lemma scenario_second_sample:
  "FMSynth_sample 1 (scenario_voice ri0 i3 i4) =
     0.3 * (20 / 441) *
       sin (TWO_PI * 440 / 44100 +
            3 * sin (TWO_PI * 880 / 44100 +
                     i3 * sin (TWO_PI * 1320 / 44100 + i4 * sin (TWO_PI * 1760 / 44100))))"
proof -
  have "scenario_inv i3 i4 (0 + 1) (FMSynth_run 1 (scenario_voice ri0 i3 i4))"
    by (intro scenario_run scenario_init)
  then have inv: "scenario_inv i3 i4 1 (FMSynth_run 1 (scenario_voice ri0 i3 i4))"
    by simp
  have fr: "frac (440 / 44100 :: real) = 440 / 44100" "frac (880 / 44100 :: real) = 880 / 44100"
    "frac (1320 / 44100 :: real) = 1320 / 44100" "frac (1760 / 44100 :: real) = 1760 / 44100"
    by (simp_all add: frac_eq)
  have wp: "wrapped_phase 440 1 = TWO_PI * 440 / 44100" "wrapped_phase 880 1 = TWO_PI * 880 / 44100"
    "wrapped_phase 1320 1 = TWO_PI * 1320 / 44100" "wrapped_phase 1760 1 = TWO_PI * 1760 / 44100"
    using fr by (simp_all add: wrapped_phase_def SAMPLE_RATE_def)
  have lv: "scenario_level (Suc 1) = 20 / 441"
    by (simp add: scenario_level_def)
  show ?thesis
    unfolding FMSynth_sample_def scenario_sample [OF inv] wp lv by (rule refl)
qed

text \<open>
  Claim C2 as stated fails at the second output. The envelope level is then 20/441, so
  the sample is at most \<open>0.3 \<sqdot> 20/441\<close> in absolute value, whereas
  \<open>amplitude \<times> sin (\<phi>\<^sub>1 + 3 sin \<phi>\<^sub>2)\<close> is larger; this holds with the constructor's indices
  for operators 3 and 4 and also with both set to 0, and for the increments taken with
  the program's \<open>TWO_PI\<close> or with \<open>2\<pi>\<close>.
\<close>

theorem scenario_counterexample:
  "FMSynth_sample 1 (scenario_voice 0 1.5 1) \<noteq>
     amplitude (scenario_voice 0 1.5 1)
       * sin (TWO_PI * 440 / 44100 + 3 * sin (TWO_PI * 880 / 44100)) \<and>
   FMSynth_sample 1 (scenario_voice 0 1.5 1) \<noteq>
     amplitude (scenario_voice 0 1.5 1)
       * sin (2 * pi * 440 / 44100 + 3 * sin (2 * pi * 880 / 44100)) \<and>
   FMSynth_sample 1 (scenario_voice 0 0 0) \<noteq>
     amplitude (scenario_voice 0 0 0)
       * sin (TWO_PI * 440 / 44100 + 3 * sin (TWO_PI * 880 / 44100)) \<and>
   FMSynth_sample 1 (scenario_voice 0 0 0) \<noteq>
     amplitude (scenario_voice 0 0 0)
       * sin (2 * pi * 440 / 44100 + 3 * sin (2 * pi * 880 / 44100))"
proof -
  have amp: "amplitude (scenario_voice ri0 i3 i4) = 0.3" for ri0 i3 i4
    using scenario_init [of i3 i4 ri0] by (simp add: scenario_inv_def)
  have a: "TWO_PI * 880 / 44100 = 2 * (TWO_PI * 440 / 44100)"
    and b: "2 * pi * 880 / 44100 = 2 * (2 * pi * 440 / 44100)"
    by simp_all
  have pa: "1 / 26 \<le> TWO_PI * 440 / 44100" "TWO_PI * 440 / 44100 \<le> 1 / 10"
    by (simp_all add: TWO_PI_def)
  have pb: "1 / 26 \<le> 2 * pi * 440 / 44100" "2 * pi * 440 / 44100 \<le> 1 / 10"
    using pi_ge_two pi_less_4 by simp_all
  show ?thesis
    unfolding scenario_second_sample amp a b
    using ramp_differs [OF pa] ramp_differs [OF pb] by (intro conjI)
qed

end
